theory Spec2Isabelle
  imports Main "HOL-Library.Sublist"
begin

section \<open>Discord TV guide bot: voting, mode orchestration and the download queue\<close>

text \<open>
  A shallow embedding of the parts of \<^verbatim>\<open>bot.js\<close> that decide community votes,
  switch between Scheduled and Custom mode, rename the managed scheduled event and run
  the sequential YouTube download queue. Module-level variables of the script are the
  fields of one record; everything the platform, the file system or a child process
  answers is a field of an environment record; every message, script execution and
  platform call is appended to a trace.
\<close>

subsection \<open>JavaScript strings\<close>

text \<open>
  Strings are lists of 8-bit characters. The whitespace class of \<^verbatim>\<open>\s\<close> and of
  \<^verbatim>\<open>String.prototype.trim\<close>, restricted to that range, is TAB, LF, VT, FF, CR, space
  and the no-break space.
\<close>

definition js_space :: "char \<Rightarrow> bool" where
  "js_space c \<longleftrightarrow> (of_char c :: nat) \<in> {9, 10, 11, 12, 13, 32, 160}"

definition js_trim :: "string \<Rightarrow> string" where
  "js_trim s = rev (dropWhile js_space (rev (dropWhile js_space s)))"

definition truthy :: "string option \<Rightarrow> bool" where
  "truthy v \<longleftrightarrow> (case v of None \<Rightarrow> False | Some s \<Rightarrow> s \<noteq> [])"

definition startsWith :: "string \<Rightarrow> string \<Rightarrow> bool" where
  "startsWith s p \<longleftrightarrow> take (length p) s = p"

subsection \<open>sanitizeSubfolderName\<close>

text \<open>
  \<^verbatim>\<open>INVALID_PATH_CHARS_REGEX = /[<>:"/\\|?*\x00-\x1f]|\.\.|\.$|^\./g\<close>.
  The character class first.
\<close>

definition invalid_path_char :: "char \<Rightarrow> bool" where
  "invalid_path_char c \<longleftrightarrow>
     c \<in> {CHR ''<'', CHR ''>'', CHR '':'', CHR 0x22, CHR ''/'', CHR 0x5C,
          CHR ''|'', CHR ''?'', CHR ''*''}
     \<or> (of_char c :: nat) < 32"

text \<open>
  \<^verbatim>\<open>.replace(INVALID_PATH_CHARS_REGEX, '_')\<close>: a global replace scans left to right
  and tries the alternatives in order at each position. The flag says whether the
  position is the start of the string (for \<^verbatim>\<open>^\.\<close>).
\<close>

fun replaceInvalid :: "bool \<Rightarrow> string \<Rightarrow> string" where
  "replaceInvalid start [] = []"
| "replaceInvalid start [c] =
     (if invalid_path_char c \<or> c = CHR ''.'' then [CHR ''_''] else [c])"
| "replaceInvalid start (c # d # ds) =
     (if invalid_path_char c then CHR ''_'' # replaceInvalid False (d # ds)
      else if c = CHR ''.'' \<and> d = CHR ''.'' then CHR ''_'' # replaceInvalid False ds
      else if c = CHR ''.'' \<and> start then CHR ''_'' # replaceInvalid False (d # ds)
      else c # replaceInvalid False (d # ds))"

text \<open>\<^verbatim>\<open>.replace(/\s+/g, '_')\<close>: every maximal run of whitespace becomes one underscore.\<close>

function replaceSpaces :: "string \<Rightarrow> string" where
  "replaceSpaces [] = []"
| "replaceSpaces (c # cs) =
     (if js_space c then CHR ''_'' # replaceSpaces (dropWhile js_space cs)
      else c # replaceSpaces cs)"
  by pat_completeness auto
termination
  by (relation "measure length") (auto simp: length_dropWhile_le less_Suc_eq_le)

text \<open>\<^verbatim>\<open>.replace(/^_+|_+$/g, '')\<close>.\<close>

definition stripUnderscores :: "string \<Rightarrow> string" where
  "stripUnderscores s =
     rev (dropWhile (\<lambda>c. c = CHR ''_'') (rev (dropWhile (\<lambda>c. c = CHR ''_'') s)))"

text \<open>
  \<^verbatim>\<open>path.basename\<close> belongs to Node and depends on the platform, so it is a
  parameter of the model. \<open>posix_basename\<close> is Node's POSIX variant (trailing slashes
  dropped, then the part after the last slash); it is used to run examples.
\<close>

definition posix_basename :: "string \<Rightarrow> string" where
  "posix_basename p =
     rev (takeWhile (\<lambda>c. c \<noteq> CHR ''/'') (dropWhile (\<lambda>c. c = CHR ''/'') (rev p)))"

definition sanitizeSubfolderName :: "(string \<Rightarrow> string) \<Rightarrow> string option \<Rightarrow> string option" where
  "sanitizeSubfolderName basename name =
     (case name of
        None \<Rightarrow> None
      | Some n \<Rightarrow>
          if n = [] then None
          else
            let cleanName = basename n;
                cleanName = replaceSpaces (replaceInvalid True cleanName);
                cleanName = js_trim (stripUnderscores cleanName)
            in if cleanName = [] then None else Some (take 50 cleanName))"

text \<open>What the claims say about a sanitised name.\<close>

fun no_dotdot :: "string \<Rightarrow> bool" where
  "no_dotdot (c # d # ds) \<longleftrightarrow> \<not> (c = CHR ''.'' \<and> d = CHR ''.'') \<and> no_dotdot (d # ds)"
| "no_dotdot _ \<longleftrightarrow> True"

text \<open>
  The characters that sanitising never touches: neither matched by the pattern, nor
  whitespace, nor a dot, nor the underscore that replaces the others.
\<close>

definition ordinary_char :: "char \<Rightarrow> bool" where
  "ordinary_char c \<longleftrightarrow>
     \<not> invalid_path_char c \<and> \<not> js_space c \<and> c \<noteq> CHR ''.'' \<and> c \<noteq> CHR ''_''"

definition not_underscore :: "char \<Rightarrow> bool" where
  "not_underscore c \<longleftrightarrow> c \<noteq> CHR ''_''"

subsection \<open>Vote sessions\<close>

text \<open>
  The three polls (\<^verbatim>\<open>!custom\<close>, \<^verbatim>\<open>!skip\<close>, the file selection of \<^verbatim>\<open>!browse\<close>, and the
  remote-control buttons that repeat the first two) keep the same three local
  variables and the same \<^verbatim>\<open>collect\<close> handler; only the id of the yes button differs.
\<close>

type_synonym user_id = nat

datatype poll_kind = CustomPoll | SkipPoll | BrowseSelectPoll

fun yes_button :: "poll_kind \<Rightarrow> string" where
  "yes_button CustomPoll = ''custom_poll_yes''"
| "yes_button SkipPoll = ''skip_poll_yes''"
| "yes_button BrowseSelectPoll = ''browse_select_poll_yes''"

fun no_button :: "poll_kind \<Rightarrow> string" where
  "no_button CustomPoll = ''custom_poll_no''"
| "no_button SkipPoll = ''skip_poll_no''"
| "no_button BrowseSelectPoll = ''browse_select_poll_no''"

record interaction =
  voter :: user_id
  customId :: string

record vote_session =
  yesVotes :: nat
  noVotes :: nat
  votedUsers :: "user_id set"

definition newPoll :: vote_session where
  "newPoll = \<lparr>yesVotes = 0, noVotes = 0, votedUsers = {}\<rparr>"

definition collect :: "poll_kind \<Rightarrow> vote_session \<Rightarrow> interaction \<Rightarrow> vote_session" where
  "collect k v i =
     (if voter i \<in> votedUsers v then v
      else
        let v = v\<lparr>votedUsers := insert (voter i) (votedUsers v)\<rparr>
        in if customId i = yes_button k then v\<lparr>yesVotes := yesVotes v + 1\<rparr>
           else v\<lparr>noVotes := noVotes v + 1\<rparr>)"

definition collectAll :: "poll_kind \<Rightarrow> interaction list \<Rightarrow> vote_session" where
  "collectAll k is = foldl (collect k) newPoll is"

definition pollPassed :: "vote_session \<Rightarrow> bool" where
  "pollPassed v \<longleftrightarrow> yesVotes v > noVotes v"

text \<open>
  The ballots that count, in the spec's words: the first ballot of each voter.
\<close>

fun firstBallots :: "user_id set \<Rightarrow> interaction list \<Rightarrow> interaction list" where
  "firstBallots seen [] = []"
| "firstBallots seen (i # is) =
     (if voter i \<in> seen then firstBallots seen is
      else i # firstBallots (insert (voter i) seen) is)"

subsection \<open>Configuration, environment, state and trace\<close>

text \<open>
  The paths read from \<^verbatim>\<open>process.env\<close> and the voice channel resolved at start-up.
  A variable that is not set is \<open>None\<close>; JavaScript's \<^verbatim>\<open>!path\<close> is \<open>\<not> truthy path\<close>.
\<close>

record config =
  customAhkPathTo :: "string option"
  customAhkPathBack :: "string option"
  skipCustomAhkPath :: "string option"
  openFileAhkPath :: "string option"
  videoDownloadFolder :: "string option"
  targetVoiceChannel :: "nat option"

datatype event_status = Scheduled | Active | Completed | Canceled

record guild_event =
  ev_id :: nat
  ev_name :: string
  ev_status :: event_status
  scheduledStartTimestamp :: int
  creatorId :: nat
  channelId :: nat

record member =
  member_id :: user_id
  is_bot :: bool

datatype channel_fetch =
    FetchThrows
  | NoChannel
  | OtherChannel
  | GuildVoice "member list"

datatype api_error = UnknownScheduledEvent | MissingPermissions | OtherApiError

record job =
  url :: string
  sourceChannel :: "nat option"
  user :: user_id
  subfolder :: "string option"

datatype subfolder_note = NoNote | SavingTo string | SubfolderWarning string

datatype dl_status = Succeeded | Failed | Cancelled

text \<open>The messages of the handlers modelled here, one constructor for each text.\<close>

datatype msg =
    MsgNoPermission
  | MsgCancelOnlyInCustomMode
  | MsgDownloadsNotConfigured
  | MsgCancelResult bool nat
  | MsgCancelAllResult bool nat
  | MsgToggleNotConfigured
  | MsgToggledTo
  | MsgToggledFrom
  | MsgCustomNotActive
  | MsgSwitchingBack
  | MsgSwitchedBack
  | MsgSwitchBackFailed
  | MsgPollPassed
  | MsgPollFailedOrTied
  | MsgExecutingSwitch
  | MsgCustomStarted
  | MsgCustomScriptFailed
  | MsgSkipOnlyInCustomMode
  | MsgSkipCooldown
  | MsgSkipScriptMissing
  | MsgNoVoiceChannel
  | MsgBypassing
  | MsgBypassDone
  | MsgBypassFailed
  | MsgMemberCheckError
  | MsgSkipPoll int
  | MsgSkipPassed
  | MsgExecutingSkip
  | MsgSkipDone
  | MsgSkipScriptFailed
  | MsgSkipFailedOrTied
  | MsgFolderNotConfigured job
  | MsgDownloadStarting job subfolder_note
  | MsgDownloadFinished job dl_status
  | MsgBrowsePollPassed
  | MsgBrowsePollFailed
  | MsgOpenFileScriptError
  | MsgOpenFileFailed

datatype discord_call =
    FetchEvents
  | CreateEvent string
  | SetStatusActive nat
  | FetchEvent nat
  | EditName nat string
  | RefetchEvent nat
  | FetchChannel

datatype effect =
    Send msg
  | Exec string
  | Abort nat
  | Discord discord_call
  | Tasklist

text \<open>
  What the world answers while one handler runs: the clock, the file system, the
  child processes, Node's \<^verbatim>\<open>path\<close> module and the Discord API. \<open>sendOk\<close> says whether
  delivering a message succeeds; it matters only where the source awaits a send inside
  a \<^verbatim>\<open>try\<close> block without a \<^verbatim>\<open>.catch\<close> of its own. \<open>stderrReportsError\<close> says whether the
  error stream of the script that opens a file contains the word error.
\<close>

record env =
  now :: int
  existsSync :: "string \<Rightarrow> bool"
  execOk :: "string \<Rightarrow> bool"
  sendOk :: "msg \<Rightarrow> bool"
  pathResolve :: "string \<Rightarrow> string"
  pathJoin :: "string \<Rightarrow> string \<Rightarrow> string"
  pathBasename :: "string \<Rightarrow> string"
  pathExtname :: "string \<Rightarrow> string"
  pathBasenameExt :: "string \<Rightarrow> string \<Rightarrow> string"
  statIsDirectory :: "string \<Rightarrow> bool option"
  currentShowTitle :: "string option"
  vlcTitle :: "string option"
  channelFetch :: channel_fetch
  botId :: nat
  guildCached :: bool
  fetchEvents :: "api_error + guild_event list"
  createEvent :: "string \<Rightarrow> api_error + guild_event"
  setStatusActive :: "guild_event \<Rightarrow> api_error + guild_event"
  fetchEvent :: "nat \<Rightarrow> guild_event option"
  editName :: "guild_event \<Rightarrow> string \<Rightarrow> api_error + guild_event"
  refetchEvent :: "guild_event \<Rightarrow> api_error + guild_event"
  stderrReportsError :: bool

text \<open>
  One invocation of \<^verbatim>\<open>processYoutubeQueue\<close> that has passed the guard and is waiting
  for \<^verbatim>\<open>ytDlpExec\<close>: its job, the signal of the \<^verbatim>\<open>AbortController\<close> it created, and the
  directory it downloads into. These are locals of the invocation.
\<close>

record download =
  dl_job :: job
  dl_signal :: nat
  dl_path :: string
  dl_note :: subfolder_note

text \<open>
  The module-level variables. The last seven fields are not variables of the script:
  \<open>downloads\<close> are the invocations in flight, \<open>aborted\<close> the signals that have fired,
  \<open>queueChecks\<close> the number of pending \<^verbatim>\<open>setTimeout(processYoutubeQueue, ...)\<close> timers,
  \<open>arrivals\<close>, \<open>startedJobs\<close> and \<open>finished\<close> the history of the queue, and \<open>trace\<close>
  the effects so far.
\<close>

record bot =
  isCustomModeActive :: bool
  customModeTimerId :: bool
  stillWatchingPromptMessage :: bool
  skipVoteCooldownEndTimestamp :: int
  consecutiveSkipVotes :: nat
  vlcTitleCheckIntervalId :: bool
  managedGuildEvent :: "guild_event option"
  isYoutubeDownloadActive :: bool
  currentDownloadJob :: "job option"
  currentAbortController :: "nat option"
  youtubeQueue :: "job list"
  downloads :: "download list"
  aborted :: "nat set"
  queueChecks :: nat
  arrivals :: "job list"
  startedJobs :: "job list"
  finished :: "(job \<times> dl_status) list"
  trace :: "effect list"

definition initialBot :: bot where
  "initialBot =
     \<lparr>isCustomModeActive = False, customModeTimerId = False,
      stillWatchingPromptMessage = False, skipVoteCooldownEndTimestamp = 0,
      consecutiveSkipVotes = 0, vlcTitleCheckIntervalId = False,
      managedGuildEvent = None, isYoutubeDownloadActive = False,
      currentDownloadJob = None, currentAbortController = None, youtubeQueue = [],
      downloads = [], aborted = {}, queueChecks = 0, arrivals = [], startedJobs = [],
      finished = [], trace = []\<rparr>"

definition emit :: "effect \<Rightarrow> bot \<Rightarrow> bot" where
  "emit x s = s\<lparr>trace := trace s @ [x]\<rparr>"

definition send :: "msg \<Rightarrow> bot \<Rightarrow> bot" where
  "send m s = emit (Send m) s"

text \<open>
  The status messages of a download go to the channel the request came from, behind
  the test \<^verbatim>\<open>if (sourceChannel)\<close>.
\<close>

definition notify :: "job \<Rightarrow> msg \<Rightarrow> bot \<Rightarrow> bot" where
  "notify j m s = (case sourceChannel j of None \<Rightarrow> s | Some ch \<Rightarrow> send m s)"

subsection \<open>Constants\<close>

definition CUSTOM_POLL_TIMEOUT_MS :: int where "CUSTOM_POLL_TIMEOUT_MS = 60 * 1000"
definition SKIP_POLL_TIMEOUT_MS :: int where "SKIP_POLL_TIMEOUT_MS = 30 * 1000"
definition SKIP_VOTE_COOLDOWN_MS :: int where "SKIP_VOTE_COOLDOWN_MS = 60 * 1000"
definition MIN_SKIP_POLL_DURATION_MS :: int where "MIN_SKIP_POLL_DURATION_MS = 5000"
definition SKIP_POLL_DECREMENT_MS :: int where "SKIP_POLL_DECREMENT_MS = 5000"
definition PLAYLIST_VIDEO_LIMIT :: nat where "PLAYLIST_VIDEO_LIMIT = 50"

subsection \<open>runAhkScript\<close>

datatype script_error = PathNotConfigured | ScriptNotFound | ResolvedNotFound | ExecFailed

definition runAhkScript :: "env \<Rightarrow> string option \<Rightarrow> bot \<Rightarrow> (script_error + unit) \<times> bot" where
  "runAhkScript e scriptPath s =
     (case scriptPath of
        None \<Rightarrow> (Inl PathNotConfigured, s)
      | Some p \<Rightarrow>
          if p = [] then (Inl PathNotConfigured, s)
          else if \<not> existsSync e p then (Inl ScriptNotFound, s)
          else
            let absoluteScriptPath = pathResolve e p
            in if \<not> existsSync e absoluteScriptPath then (Inl ResolvedNotFound, s)
               else
                 let s = emit (Exec absoluteScriptPath) s
                 in if execOk e absoluteScriptPath then (Inr (), s) else (Inl ExecFailed, s))"

text \<open>When the promise of \<open>runAhkScript\<close> resolves, in terms of the environment.\<close>

definition scriptSucceeds :: "env \<Rightarrow> string option \<Rightarrow> bool" where
  "scriptSucceeds e scriptPath \<longleftrightarrow>
     (case scriptPath of
        None \<Rightarrow> False
      | Some p \<Rightarrow> p \<noteq> [] \<and> existsSync e p \<and> existsSync e (pathResolve e p)
                 \<and> execOk e (pathResolve e p))"

subsection \<open>The managed scheduled event\<close>

definition terminal :: "event_status \<Rightarrow> bool" where
  "terminal st \<longleftrightarrow> st = Completed \<or> st = Canceled"

definition findOrCreateManagedEvent :: "config \<Rightarrow> env \<Rightarrow> bot \<Rightarrow> guild_event option \<times> bot" where
  "findOrCreateManagedEvent cfg e s =
     (case targetVoiceChannel cfg of
        None \<Rightarrow> (None, s)
      | Some tvc \<Rightarrow>
          let s = emit (Discord FetchEvents) s
          in case fetchEvents e of
               Inl err \<Rightarrow> (None, s)
             | Inr events \<Rightarrow>
                 (case find (\<lambda>ev. creatorId ev = botId e \<and> channelId ev = tvc
                                 \<and> ev_status ev \<noteq> Completed \<and> ev_status ev \<noteq> Canceled) events of
                    Some foundEvent \<Rightarrow>
                      if ev_status foundEvent = Scheduled
                         \<and> scheduledStartTimestamp foundEvent < now e
                      then
                        let s = emit (Discord (SetStatusActive (ev_id foundEvent))) s
                        in (case setStatusActive e foundEvent of
                              Inr started \<Rightarrow> (Some started, s)
                            | Inl err \<Rightarrow> (Some foundEvent, s))
                      else (Some foundEvent, s)
                  | None \<Rightarrow>
                      let initialName =
                            (if isCustomModeActive s then ''Custom Channel''
                             else case currentShowTitle e of
                                    None \<Rightarrow> ''Stream Starting Soon''
                                  | Some t \<Rightarrow> if t = [] then ''Stream Starting Soon'' else t);
                          s = emit (Discord (CreateEvent (take 100 initialName))) s
                      in case createEvent e (take 100 initialName) of
                           Inl err \<Rightarrow> (None, s)
                         | Inr newEvent \<Rightarrow>
                             let s = emit (Discord (SetStatusActive (ev_id newEvent))) s
                             in (case setStatusActive e newEvent of
                                   Inr started \<Rightarrow> (Some started, s)
                                 | Inl err \<Rightarrow> (Some newEvent, s))))"

text \<open>
  Lines 475 to 496 of \<^verbatim>\<open>updateEventNameInternal\<close>: the name that will be compared with
  the cached one. \<open>None\<close> is the early \<^verbatim>\<open>return false\<close> for an invalid name.
\<close>

definition finalEventName :: "bool \<Rightarrow> guild_event \<Rightarrow> string \<Rightarrow> string option" where
  "finalEventName custom ev newName =
     (let invalid = (newName = [] \<or> js_trim newName = [])
      in if invalid \<and> \<not> (custom \<and> ev_name ev \<noteq> ''Custom Channel'') then None
         else
           let nameToSet = (if invalid then ''Custom Channel'' else newName);
               nameToSet = (if custom \<and> nameToSet \<noteq> ''Custom Channel''
                            then ''Custom Channel: '' @ nameToSet else nameToSet)
           in Some (take 100 (js_trim nameToSet)))"

definition apiFailed :: "api_error \<Rightarrow> bot \<Rightarrow> bool \<times> bot" where
  "apiFailed err s =
     (False, if err = UnknownScheduledEvent then s\<lparr>managedGuildEvent := None\<rparr> else s)"

text \<open>
  The \<^verbatim>\<open>try\<close> block of \<^verbatim>\<open>updateEventNameInternal\<close>, in three steps. \<^verbatim>\<open>currentEventState\<close>
  and \<^verbatim>\<open>managedGuildEvent\<close> name the same object; \<open>editName\<close> and \<open>setStatusActive\<close> answer
  with the state of that object after the call.
\<close>

definition activateIfDue :: "env \<Rightarrow> guild_event \<Rightarrow> bot \<Rightarrow> bool \<times> bot" where
  "activateIfDue e cur s =
     (if ev_status cur = Scheduled \<and> scheduledStartTimestamp cur < now e then
        let s = emit (Discord (SetStatusActive (ev_id cur))) s
        in case setStatusActive e cur of
             Inl err \<Rightarrow> apiFailed err s
           | Inr cur \<Rightarrow>
               let s = emit (Discord (RefetchEvent (ev_id cur))) (s\<lparr>managedGuildEvent := Some cur\<rparr>)
               in (case refetchEvent e cur of
                     Inl err \<Rightarrow> apiFailed err s
                   | Inr r \<Rightarrow> (True, s\<lparr>managedGuildEvent := Some r\<rparr>))
      else (True, s))"

definition editIfDifferent :: "env \<Rightarrow> string \<Rightarrow> guild_event \<Rightarrow> bot \<Rightarrow> bool \<times> bot" where
  "editIfDifferent e finalName cur s =
     (if terminal (ev_status cur) then (False, s\<lparr>managedGuildEvent := None\<rparr>)
      else if ev_name cur \<noteq> finalName then
        let s = emit (Discord (EditName (ev_id cur) finalName)) s
        in case editName e cur finalName of
             Inl err \<Rightarrow> apiFailed err s
           | Inr cur \<Rightarrow> activateIfDue e cur (s\<lparr>managedGuildEvent := Some cur\<rparr>)
      else activateIfDue e cur s)"

definition applyEventName :: "env \<Rightarrow> string \<Rightarrow> guild_event \<Rightarrow> bot \<Rightarrow> bool \<times> bot" where
  "applyEventName e finalName ev s =
     (if ev_name ev \<noteq> finalName then
        if \<not> guildCached e then (False, s\<lparr>managedGuildEvent := None\<rparr>)
        else
          let s = emit (Discord (FetchEvent (ev_id ev))) s
          in case fetchEvent e (ev_id ev) of
               None \<Rightarrow> (False, s\<lparr>managedGuildEvent := None\<rparr>)
             | Some fetchedState \<Rightarrow>
                 editIfDifferent e finalName fetchedState
                   (s\<lparr>managedGuildEvent := Some fetchedState\<rparr>)
      else editIfDifferent e finalName ev s)"

definition needsReacquire :: "guild_event option \<Rightarrow> bool" where
  "needsReacquire m \<longleftrightarrow> (case m of None \<Rightarrow> True | Some ev \<Rightarrow> terminal (ev_status ev))"

definition updateEventNameInternal :: "config \<Rightarrow> env \<Rightarrow> string \<Rightarrow> bot \<Rightarrow> bool \<times> bot" where
  "updateEventNameInternal cfg e newName s =
     (if targetVoiceChannel cfg = None then (False, s)
      else
        let s = (if needsReacquire (managedGuildEvent s) \<and> guildCached e
                 then (case findOrCreateManagedEvent cfg e s of
                         (r, s) \<Rightarrow> s\<lparr>managedGuildEvent := r\<rparr>)
                 else s)
        in if needsReacquire (managedGuildEvent s) then (False, s)
           else case managedGuildEvent s of
                  None \<Rightarrow> (False, s)
                | Some ev \<Rightarrow>
                    (case finalEventName (isCustomModeActive s) ev newName of
                       None \<Rightarrow> (False, s)
                     | Some finalName \<Rightarrow> applyEventName e finalName ev s))"

definition stopVlcTitleCheckInterval :: "bot \<Rightarrow> bot" where
  "stopVlcTitleCheckInterval s = s\<lparr>vlcTitleCheckIntervalId := False\<rparr>"

text \<open>
  \<^verbatim>\<open>checkAndUpdateVlcEventTitle\<close>. The name it compares with the cached one is built
  from the title of the player's window.
\<close>

definition vlcEventTitle :: "env \<Rightarrow> string" where
  "vlcEventTitle e =
     (case vlcTitle e of
        None \<Rightarrow> ''Custom Channel''
      | Some raw \<Rightarrow>
          if raw = [] then ''Custom Channel''
          else js_trim (pathBasenameExt e raw (pathExtname e raw)))"

definition vlcPotentialName :: "env \<Rightarrow> string" where
  "vlcPotentialName e =
     take 100 (if vlcEventTitle e \<noteq> ''Custom Channel''
               then ''Custom Channel: '' @ vlcEventTitle e else ''Custom Channel'')"

definition checkAndUpdateVlcEventTitle :: "config \<Rightarrow> env \<Rightarrow> bot \<Rightarrow> bot" where
  "checkAndUpdateVlcEventTitle cfg e s =
     (case managedGuildEvent s of
        None \<Rightarrow> s
      | Some ev \<Rightarrow>
          if \<not> isCustomModeActive s \<or> targetVoiceChannel cfg = None then s
          else
            let s = emit Tasklist s
            in if ev_name ev = vlcPotentialName e then s
               else if \<not> guildCached e
               then (stopVlcTitleCheckInterval s)\<lparr>managedGuildEvent := None\<rparr>
               else
                 let s = emit (Discord (FetchEvent (ev_id ev))) s
                 in case fetchEvent e (ev_id ev) of
                      None \<Rightarrow> (stopVlcTitleCheckInterval s)\<lparr>managedGuildEvent := None\<rparr>
                    | Some st \<Rightarrow>
                        if terminal (ev_status st)
                        then (stopVlcTitleCheckInterval s)\<lparr>managedGuildEvent := None\<rparr>
                        else snd (updateEventNameInternal cfg e (vlcEventTitle e)
                                    (s\<lparr>managedGuildEvent := Some st\<rparr>)))"

subsection \<open>Mode transitions\<close>

definition startVlcTitleCheckInterval :: "config \<Rightarrow> bot \<Rightarrow> bot" where
  "startVlcTitleCheckInterval cfg s =
     s\<lparr>vlcTitleCheckIntervalId := (isCustomModeActive s \<and> targetVoiceChannel cfg \<noteq> None)\<rparr>"

definition startCustomModeTimer :: "config \<Rightarrow> bot \<Rightarrow> bot" where
  "startCustomModeTimer cfg s = (startVlcTitleCheckInterval cfg s)\<lparr>customModeTimerId := True\<rparr>"

text \<open>
  \<^verbatim>\<open>endCustomMode\<close> is called with an interaction, a message or a channel. Its feedback
  function swallows delivery errors only for an interaction.
\<close>

datatype initiator = ViaInteraction | ViaMessage | ViaChannel

definition endCustomMode :: "config \<Rightarrow> env \<Rightarrow> initiator \<Rightarrow> bot \<Rightarrow> bool \<times> bot" where
  "endCustomMode cfg e ctx s =
     (let s = stopVlcTitleCheckInterval (s\<lparr>customModeTimerId := False\<rparr>);
          s = s\<lparr>stillWatchingPromptMessage := False\<rparr>
      in if \<not> isCustomModeActive s then (False, send MsgCustomNotActive s)
         else
           let s = send MsgSwitchingBack s
           in if ctx \<noteq> ViaInteraction \<and> \<not> sendOk e MsgSwitchingBack
              then (False, send MsgSwitchBackFailed s)
              else
                case runAhkScript e (customAhkPathBack cfg) s of
                  (Inl err, s) \<Rightarrow> (False, send MsgSwitchBackFailed s)
                | (Inr u, s) \<Rightarrow>
                    let s = s\<lparr>isCustomModeActive := False, consecutiveSkipVotes := 0\<rparr>;
                        s = send MsgSwitchedBack s;
                        s = (if truthy (currentShowTitle e) \<and> targetVoiceChannel cfg \<noteq> None
                             then snd (updateEventNameInternal cfg e
                                         (case currentShowTitle e of Some t \<Rightarrow> t | None \<Rightarrow> []) s)
                             else if targetVoiceChannel cfg \<noteq> None
                                     \<and> (case managedGuildEvent s of
                                          None \<Rightarrow> False
                                        | Some ev \<Rightarrow> startsWith (ev_name ev) ''Custom Channel'')
                             then snd (updateEventNameInternal cfg e ''Stream Starting Soon'' s)
                             else s)
                    in (True, s))"

text \<open>
  The \<^verbatim>\<open>end\<close> handler of the poll started by \<^verbatim>\<open>!custom\<close> (and by the remote button, which
  repeats it).
\<close>

definition customPollFailure :: "bot \<Rightarrow> bot" where
  "customPollFailure s = send MsgCustomScriptFailed s"

definition customPollEnd :: "config \<Rightarrow> env \<Rightarrow> vote_session \<Rightarrow> bot \<Rightarrow> bot" where
  "customPollEnd cfg e v s =
     (if pollPassed v then
        let s = send MsgPollPassed s;
            s = send MsgExecutingSwitch s
        in if \<not> sendOk e MsgExecutingSwitch then customPollFailure s
           else
             case runAhkScript e (customAhkPathTo cfg) s of
               (Inl err, s) \<Rightarrow> customPollFailure s
             | (Inr u, s) \<Rightarrow>
                 let s = s\<lparr>isCustomModeActive := True, consecutiveSkipVotes := 0\<rparr>;
                     s = (if targetVoiceChannel cfg \<noteq> None
                          then snd (updateEventNameInternal cfg e ''Custom Channel'' s) else s);
                     s = startCustomModeTimer cfg s;
                     s = send MsgCustomStarted s
                 in if sendOk e MsgCustomStarted then s else customPollFailure s
      else send MsgPollFailedOrTied s)"

text \<open>\<^verbatim>\<open>!toggle\<close> (and the remote button, which repeats it).\<close>

definition toggleCommand :: "config \<Rightarrow> env \<Rightarrow> bool \<Rightarrow> bot \<Rightarrow> bot" where
  "toggleCommand cfg e userIsAdmin s =
     (if \<not> userIsAdmin then send MsgNoPermission s
      else if \<not> truthy (customAhkPathTo cfg) \<or> \<not> truthy (customAhkPathBack cfg)
              \<or> targetVoiceChannel cfg = None
      then send MsgToggleNotConfigured s
      else
        let newState = \<not> isCustomModeActive s;
            s = s\<lparr>isCustomModeActive := newState\<rparr>
        in if isCustomModeActive s then
             let s = startCustomModeTimer cfg (s\<lparr>customModeTimerId := False\<rparr>);
                 s = (if targetVoiceChannel cfg \<noteq> None
                      then snd (updateEventNameInternal cfg e ''Custom Channel'' s) else s);
                 s = s\<lparr>consecutiveSkipVotes := 0\<rparr>
             in send MsgToggledTo s
           else
             let s = stopVlcTitleCheckInterval (s\<lparr>customModeTimerId := False\<rparr>);
                 s = s\<lparr>stillWatchingPromptMessage := False\<rparr>;
                 s = (if truthy (currentShowTitle e) \<and> targetVoiceChannel cfg \<noteq> None
                      then snd (updateEventNameInternal cfg e
                                  (case currentShowTitle e of Some t \<Rightarrow> t | None \<Rightarrow> []) s)
                      else if targetVoiceChannel cfg \<noteq> None
                      then snd (updateEventNameInternal cfg e ''Stream Starting Soon'' s)
                      else s);
                 s = s\<lparr>consecutiveSkipVotes := 0\<rparr>
             in send MsgToggledFrom s)"

text \<open>
  The \<^verbatim>\<open>end\<close> handler of the poll that confirms a file chosen in \<^verbatim>\<open>!browse\<close>. The path of
  the file is an argument of the script and does not change what is modelled here.
\<close>

definition browsePollEnd :: "config \<Rightarrow> env \<Rightarrow> string \<Rightarrow> vote_session \<Rightarrow> bot \<Rightarrow> bot" where
  "browsePollEnd cfg e selectedFileName v s =
     (if pollPassed v then
        let s = send MsgBrowsePollPassed s;
            fileNameForEvent = pathBasenameExt e selectedFileName (pathExtname e selectedFileName);
            s = snd (updateEventNameInternal cfg e fileNameForEvent s)
        in case runAhkScript e (openFileAhkPath cfg) s of
             (Inl err, s) \<Rightarrow> send MsgOpenFileFailed s
           | (Inr u, s) \<Rightarrow>
               if stderrReportsError e then send MsgOpenFileScriptError s else s
      else send MsgBrowsePollFailed s)"

subsection \<open>Skipping the current item\<close>

definition skipPollDuration :: "nat \<Rightarrow> int" where
  "skipPollDuration streak =
     max MIN_SKIP_POLL_DURATION_MS
         (SKIP_POLL_TIMEOUT_MS - int streak * SKIP_POLL_DECREMENT_MS)"

datatype skip_outcome =
    SkipRefused
  | SkipBypassed bool
  | SkipPollStarted int
  | SkipPollNotSent

definition humanMembers :: "member list \<Rightarrow> member list" where
  "humanMembers ms = filter (\<lambda>m. \<not> is_bot m) ms"

definition startSkipPoll :: "env \<Rightarrow> bot \<Rightarrow> skip_outcome \<times> bot" where
  "startSkipPoll e s =
     (let s = s\<lparr>skipVoteCooldownEndTimestamp := now e + SKIP_VOTE_COOLDOWN_MS\<rparr>;
          currentSkipPollTimeoutMs = skipPollDuration (consecutiveSkipVotes s);
          s = send (MsgSkipPoll currentSkipPollTimeoutMs) s
      in if sendOk e (MsgSkipPoll currentSkipPollTimeoutMs)
         then (SkipPollStarted currentSkipPollTimeoutMs, s)
         else (SkipPollNotSent, s\<lparr>skipVoteCooldownEndTimestamp := 0\<rparr>))"

definition skipBypass :: "config \<Rightarrow> env \<Rightarrow> bot \<Rightarrow> skip_outcome \<times> bot" where
  "skipBypass cfg e s =
     (let s = send MsgBypassing s
      in case runAhkScript e (skipCustomAhkPath cfg) s of
           (Inr u, s) \<Rightarrow>
             let s = s\<lparr>consecutiveSkipVotes := consecutiveSkipVotes s + 1\<rparr>;
                 s = send MsgBypassDone s
             in (SkipBypassed True,
                 s\<lparr>skipVoteCooldownEndTimestamp := now e + SKIP_VOTE_COOLDOWN_MS\<rparr>)
         | (Inl err, s) \<Rightarrow>
             let s = send MsgBypassFailed s
             in (SkipBypassed False,
                 s\<lparr>skipVoteCooldownEndTimestamp := now e + SKIP_VOTE_COOLDOWN_MS\<rparr>))"

text \<open>\<^verbatim>\<open>!skip\<close> (and the remote button, which repeats it).\<close>

definition skipCommand :: "config \<Rightarrow> env \<Rightarrow> bot \<Rightarrow> skip_outcome \<times> bot" where
  "skipCommand cfg e s =
     (if \<not> isCustomModeActive s then (SkipRefused, send MsgSkipOnlyInCustomMode s)
      else if now e < skipVoteCooldownEndTimestamp s then (SkipRefused, send MsgSkipCooldown s)
      else if \<not> truthy (skipCustomAhkPath cfg)
              \<or> \<not> existsSync e (case skipCustomAhkPath cfg of Some p \<Rightarrow> p | None \<Rightarrow> [])
      then (SkipRefused, send MsgSkipScriptMissing s)
      else if targetVoiceChannel cfg = None then (SkipRefused, send MsgNoVoiceChannel s)
      else
        let s = emit (Discord FetchChannel) s
        in case channelFetch e of
             GuildVoice members \<Rightarrow>
               if length (humanMembers members) = 2 then skipBypass cfg e s
               else startSkipPoll e s
           | FetchThrows \<Rightarrow> startSkipPoll e (send MsgMemberCheckError s)
           | NoChannel \<Rightarrow> startSkipPoll e s
           | OtherChannel \<Rightarrow> startSkipPoll e s)"

definition skipPollFailure :: "bot \<Rightarrow> bot" where
  "skipPollFailure s = send MsgSkipScriptFailed (s\<lparr>consecutiveSkipVotes := 0\<rparr>)"

definition skipPollEnd :: "config \<Rightarrow> env \<Rightarrow> vote_session \<Rightarrow> bot \<Rightarrow> bot" where
  "skipPollEnd cfg e v s =
     (if pollPassed v then
        let s = s\<lparr>consecutiveSkipVotes := consecutiveSkipVotes s + 1\<rparr>;
            s = send MsgSkipPassed s;
            s = send MsgExecutingSkip s
        in if \<not> sendOk e MsgExecutingSkip then skipPollFailure s
           else
             case runAhkScript e (skipCustomAhkPath cfg) s of
               (Inl err, s) \<Rightarrow> skipPollFailure s
             | (Inr u, s) \<Rightarrow>
                 let s = send MsgSkipDone s
                 in if sendOk e MsgSkipDone then s else skipPollFailure s
      else send MsgSkipFailedOrTied (s\<lparr>consecutiveSkipVotes := 0\<rparr>))"

subsection \<open>The download queue\<close>

text \<open>
  What \<^verbatim>\<open>!youtube\<close> and the remote modal do to the queue once the URL has been checked:
  the video, or the first \<^verbatim>\<open>PLAYLIST_VIDEO_LIMIT\<close> videos of a playlist, are pushed and
  one queue check is scheduled.
\<close>

definition enqueueJobs :: "job list \<Rightarrow> bot \<Rightarrow> bot" where
  "enqueueJobs js s =
     (let urlsToQueue = take PLAYLIST_VIDEO_LIMIT js
      in s\<lparr>youtubeQueue := youtubeQueue s @ urlsToQueue,
           arrivals := arrivals s @ urlsToQueue,
           queueChecks := queueChecks s + 1\<rparr>)"

text \<open>Lines 1364 to 1391: the directory, the subfolder used and the warning flag.\<close>

definition resolveSubfolder :: "env \<Rightarrow> string \<Rightarrow> string option \<Rightarrow> string \<times> string option \<times> bool" where
  "resolveSubfolder e root requestedSubfolder =
     (if truthy requestedSubfolder then
        (case sanitizeSubfolderName (pathBasename e) requestedSubfolder of
           Some sanitizedSubfolder \<Rightarrow>
             let potentialPath = pathJoin e root sanitizedSubfolder
             in (case statIsDirectory e potentialPath of
                   Some True \<Rightarrow> (potentialPath, Some sanitizedSubfolder, False)
                 | Some False \<Rightarrow> (root, None, True)
                 | None \<Rightarrow> (root, None, True))
         | None \<Rightarrow> (root, None, True))
      else (root, None, False))"

text \<open>Lines 1479 to 1485: what the first status message says about the subfolder.\<close>

definition subfolderNote :: "string option \<Rightarrow> string option \<Rightarrow> bool \<Rightarrow> subfolder_note" where
  "subfolderNote requestedSubfolder subfolderUsedName subfolderWarningSent =
     (case subfolderUsedName of
        Some n \<Rightarrow> SavingTo n
      | None \<Rightarrow>
          if subfolderWarningSent \<and> truthy requestedSubfolder
          then SubfolderWarning (case requestedSubfolder of Some r \<Rightarrow> r | None \<Rightarrow> [])
          else NoNote)"

text \<open>
  The locals of an invocation of \<^verbatim>\<open>processYoutubeQueue\<close> once the subfolder has been
  validated.
\<close>

definition newDownload :: "env \<Rightarrow> string \<Rightarrow> job \<Rightarrow> nat \<Rightarrow> download" where
  "newDownload e root j signal =
     (case resolveSubfolder e root (subfolder j) of
        (finalDownloadPath, subfolderUsedName, subfolderWarningSent) \<Rightarrow>
          \<lparr>dl_job = j, dl_signal = signal, dl_path = finalDownloadPath,
           dl_note = subfolderNote (subfolder j) subfolderUsedName subfolderWarningSent\<rparr>)"

text \<open>
  \<^verbatim>\<open>processYoutubeQueue\<close> up to the call of \<^verbatim>\<open>ytDlpExec\<close>. The new controller gets a
  number that no earlier one has.
\<close>

definition releaseUnconfigured :: "job \<Rightarrow> bot \<Rightarrow> bot" where
  "releaseUnconfigured j s =
     notify j (MsgFolderNotConfigured j)
       (s\<lparr>isYoutubeDownloadActive := False, currentDownloadJob := None,
          currentAbortController := None, queueChecks := queueChecks s + 1\<rparr>)"

definition processYoutubeQueue :: "config \<Rightarrow> env \<Rightarrow> bot \<Rightarrow> bot" where
  "processYoutubeQueue cfg e s =
     (if isYoutubeDownloadActive s then s
      else case youtubeQueue s of
             [] \<Rightarrow> s
           | j # rest \<Rightarrow>
               let signal = length (startedJobs s);
                   s = s\<lparr>isYoutubeDownloadActive := True, currentDownloadJob := Some j,
                         youtubeQueue := rest, currentAbortController := Some signal,
                         startedJobs := startedJobs s @ [j]\<rparr>
               in case videoDownloadFolder cfg of
                    None \<Rightarrow> releaseUnconfigured j s
                  | Some root \<Rightarrow>
                      if root = [] then releaseUnconfigured j s
                      else
                        let d = newDownload e root j signal;
                            s = notify j (MsgDownloadStarting j (dl_note d)) s
                        in s\<lparr>downloads := downloads s @ [d]\<rparr>)"

text \<open>
  The rest of the invocation, from the moment the promise of \<^verbatim>\<open>ytDlpExec\<close> settles:
  the \<^verbatim>\<open>signal.aborted\<close> tests, the final message and the \<^verbatim>\<open>finally\<close> block.
\<close>

datatype dl_outcome = Resolved | Rejected

definition downloadStatus :: "bool \<Rightarrow> dl_outcome \<Rightarrow> dl_status" where
  "downloadStatus signalAborted outcome =
     (if signalAborted then Cancelled
      else case outcome of Resolved \<Rightarrow> Succeeded | Rejected \<Rightarrow> Failed)"

definition settleDownload :: "nat \<Rightarrow> dl_outcome \<Rightarrow> bot \<Rightarrow> bot" where
  "settleDownload n outcome s =
     (if n < length (downloads s) then
        let d = downloads s ! n;
            status = downloadStatus (dl_signal d \<in> aborted s) outcome;
            s = notify (dl_job d) (MsgDownloadFinished (dl_job d) status) s
        in s\<lparr>isYoutubeDownloadActive := False, currentDownloadJob := None,
             currentAbortController := None, queueChecks := queueChecks s + 1,
             downloads := take n (downloads s) @ drop (Suc n) (downloads s),
             finished := finished s @ [(dl_job d, status)]\<rparr>
      else s)"

definition abortController :: "nat \<Rightarrow> bot \<Rightarrow> bot" where
  "abortController c s = emit (Abort c) (s\<lparr>aborted := insert c (aborted s)\<rparr>)"

text \<open>\<^verbatim>\<open>currentAbortController.abort()\<close>, guarded by the test that the variable is set.\<close>

definition abortCurrent :: "bot \<Rightarrow> bot" where
  "abortCurrent s =
     (case currentAbortController s of None \<Rightarrow> s | Some c \<Rightarrow> abortController c s)"

text \<open>\<^verbatim>\<open>!cancel\<close> and \<^verbatim>\<open>!cancelall\<close> (and the remote buttons, which repeat them).\<close>

definition cancelCommand :: "config \<Rightarrow> user_id \<Rightarrow> bot \<Rightarrow> bot" where
  "cancelCommand cfg userId s =
     (if \<not> isCustomModeActive s then send MsgCancelOnlyInCustomMode s
      else if \<not> truthy (videoDownloadFolder cfg) then send MsgDownloadsNotConfigured s
      else
        let activeCancelled =
              (isYoutubeDownloadActive s
               \<and> (case currentDownloadJob s of None \<Rightarrow> False | Some j \<Rightarrow> user j = userId)
               \<and> currentAbortController s \<noteq> None);
            s = (if activeCancelled then abortCurrent s else s);
            initialQueueLength = length (youtubeQueue s);
            newQueue = filter (\<lambda>j. user j \<noteq> userId) (youtubeQueue s);
            cancelledQueueCount = initialQueueLength - length newQueue;
            s = s\<lparr>youtubeQueue := newQueue\<rparr>
        in send (MsgCancelResult activeCancelled cancelledQueueCount) s)"

definition cancelAllCommand :: "config \<Rightarrow> bool \<Rightarrow> bot \<Rightarrow> bot" where
  "cancelAllCommand cfg userIsAdmin s =
     (if \<not> userIsAdmin then send MsgNoPermission s
      else if \<not> isCustomModeActive s then send MsgCancelOnlyInCustomMode s
      else if \<not> truthy (videoDownloadFolder cfg) then send MsgDownloadsNotConfigured s
      else
        let initialQueueLength = length (youtubeQueue s);
            activeCancelled = (isYoutubeDownloadActive s \<and> currentAbortController s \<noteq> None);
            s = (if activeCancelled then abortCurrent s else s);
            s = s\<lparr>youtubeQueue := []\<rparr>
        in send (MsgCancelAllResult activeCancelled initialQueueLength) s)"

text \<open>
  The events that touch the queue or the mode flag, each run to completion. A queue
  timer can fire only while one is pending.
\<close>

datatype event =
    Youtube "job list"
  | QueueTimer env
  | DownloadSettles nat dl_outcome
  | Cancel user_id
  | CancelAll bool
  | Toggle env bool
  | CustomPollEnds env vote_session
  | EndCustomMode env initiator

fun exec_event :: "config \<Rightarrow> bot \<Rightarrow> event \<Rightarrow> bot" where
  "exec_event cfg s (Youtube js) = enqueueJobs js s"
| "exec_event cfg s (QueueTimer e) =
     (if queueChecks s = 0 then s
      else processYoutubeQueue cfg e (s\<lparr>queueChecks := queueChecks s - 1\<rparr>))"
| "exec_event cfg s (DownloadSettles n outcome) = settleDownload n outcome s"
| "exec_event cfg s (Cancel userId) = cancelCommand cfg userId s"
| "exec_event cfg s (CancelAll userIsAdmin) = cancelAllCommand cfg userIsAdmin s"
| "exec_event cfg s (Toggle e userIsAdmin) = toggleCommand cfg e userIsAdmin s"
| "exec_event cfg s (CustomPollEnds e v) = customPollEnd cfg e v s"
| "exec_event cfg s (EndCustomMode e ctx) = snd (endCustomMode cfg e ctx s)"

definition run :: "config \<Rightarrow> event list \<Rightarrow> bot \<Rightarrow> bot" where
  "run cfg evs s = foldl (exec_event cfg) s evs"

subsection \<open>Views of the state and the invariant of the queue\<close>

text \<open>The variables of the download queue, with the history of the queue.\<close>

definition queueView ::
  "bot \<Rightarrow> bool \<times> job option \<times> nat option \<times> job list \<times> download list \<times> nat set
          \<times> nat \<times> job list \<times> job list \<times> (job \<times> dl_status) list" where
  "queueView s =
     (isYoutubeDownloadActive s, currentDownloadJob s, currentAbortController s,
      youtubeQueue s, downloads s, aborted s, queueChecks s, arrivals s, startedJobs s,
      finished s)"

text \<open>The variables of the mode orchestrator other than the managed event.\<close>

definition modeView :: "bot \<Rightarrow> bool \<times> bool \<times> bool \<times> int \<times> nat \<times> bool" where
  "modeView s =
     (isCustomModeActive s, customModeTimerId s, stillWatchingPromptMessage s,
      skipVoteCooldownEndTimestamp s, consecutiveSkipVotes s, vlcTitleCheckIntervalId s)"

text \<open>The Discord calls and the script executions in a trace.\<close>

fun discordCalls :: "effect list \<Rightarrow> discord_call list" where
  "discordCalls [] = []"
| "discordCalls (Discord c # xs) = c # discordCalls xs"
| "discordCalls (x # xs) = discordCalls xs"

fun executions :: "effect list \<Rightarrow> string list" where
  "executions [] = []"
| "executions (Exec p # xs) = p # executions xs"
| "executions (x # xs) = executions xs"

fun messages :: "effect list \<Rightarrow> msg list" where
  "messages [] = []"
| "messages (Send m # xs) = m # messages xs"
| "messages (x # xs) = messages xs"

text \<open>
  What holds of the queue between two events: the flag is set exactly while an
  invocation is in flight, there is at most one, the module-level job and controller
  are those of that invocation, a queue check is pending whenever jobs wait and nothing
  runs, and the jobs dequeued so far followed by the jobs still queued are the
  arrivals without those cancelled, in the order of arrival.
\<close>

definition queueInvariant :: "bot \<Rightarrow> bool" where
  "queueInvariant s \<longleftrightarrow>
     length (downloads s) \<le> 1
     \<and> (isYoutubeDownloadActive s \<longleftrightarrow> downloads s \<noteq> [])
     \<and> (\<forall>d \<in> set (downloads s).
           currentDownloadJob s = Some (dl_job d)
           \<and> currentAbortController s = Some (dl_signal d)
           \<and> dl_signal d + 1 = length (startedJobs s))
     \<and> (\<not> isYoutubeDownloadActive s \<longrightarrow>
           currentDownloadJob s = None \<and> currentAbortController s = None)
     \<and> (\<forall>c \<in> aborted s. c < length (startedJobs s))
     \<and> (\<not> isYoutubeDownloadActive s \<and> youtubeQueue s \<noteq> [] \<longrightarrow> queueChecks s > 0)
     \<and> subseq (startedJobs s @ youtubeQueue s) (arrivals s)"

subsection \<open>Examples\<close>

definition exampleConfig :: config where
  "exampleConfig =
     \<lparr>customAhkPathTo = Some ''to.ahk'', customAhkPathBack = Some ''back.ahk'',
      skipCustomAhkPath = Some ''skip.ahk'', openFileAhkPath = Some ''open.ahk'',
      videoDownloadFolder = Some ''/videos'',
      targetVoiceChannel = Some 7\<rparr>"

definition exampleEvent :: guild_event where
  "exampleEvent =
     \<lparr>ev_id = 5, ev_name = ''News'', ev_status = Active, scheduledStartTimestamp = 0,
      creatorId = 1, channelId = 7\<rparr>"

definition exampleEnv :: env where
  "exampleEnv =
     \<lparr>now = 100000, existsSync = (\<lambda>p. True), execOk = (\<lambda>p. True), sendOk = (\<lambda>m. True),
      pathResolve = (\<lambda>p. p), pathJoin = (\<lambda>a b. a @ ''/'' @ b),
      pathBasename = posix_basename, pathExtname = (\<lambda>p. []),
      pathBasenameExt = (\<lambda>p x. posix_basename p),
      statIsDirectory = (\<lambda>p. if p = ''/videos/Movies'' then Some True else None),
      currentShowTitle = Some ''News'', vlcTitle = None,
      channelFetch = GuildVoice [\<lparr>member_id = 1, is_bot = False\<rparr>,
                                 \<lparr>member_id = 2, is_bot = False\<rparr>,
                                 \<lparr>member_id = 3, is_bot = True\<rparr>],
      botId = 1, guildCached = True, fetchEvents = Inr [exampleEvent],
      createEvent = (\<lambda>n. Inl MissingPermissions),
      setStatusActive = (\<lambda>ev. Inr (ev\<lparr>ev_status := Active\<rparr>)),
      fetchEvent = (\<lambda>i. Some exampleEvent),
      editName = (\<lambda>ev n. Inr (ev\<lparr>ev_name := n\<rparr>)),
      refetchEvent = (\<lambda>ev. Inr ev), stderrReportsError = False\<rparr>"

definition jobA :: job where
  "jobA = \<lparr>url = ''https://youtu.be/a'', sourceChannel = Some 3, user = 1, subfolder = None\<rparr>"

definition jobB :: job where
  "jobB = \<lparr>url = ''https://youtu.be/b'', sourceChannel = Some 3, user = 2,
           subfolder = Some ''Movies''\<rparr>"

definition jobC :: job where
  "jobC = \<lparr>url = ''https://youtu.be/c'', sourceChannel = Some 3, user = 1,
           subfolder = Some ''../../etc''\<rparr>"

definition jobD :: job where
  "jobD = \<lparr>url = ''https://youtu.be/d'', sourceChannel = Some 3, user = 2,
           subfolder = Some ''tv/New: Shows.''\<rparr>"

definition customBot :: bot where
  "customBot = initialBot\<lparr>isCustomModeActive := True, customModeTimerId := True,
                          vlcTitleCheckIntervalId := True,
                          managedGuildEvent := Some (exampleEvent\<lparr>ev_name := ''Custom Channel''\<rparr>)\<rparr>"

text \<open>
  A step that touches nothing but the cached event and adds nothing to the trace but
  Discord calls.
\<close>

definition eventOnly :: "bot \<Rightarrow> bot \<Rightarrow> bool" where
  "eventOnly s s' \<longleftrightarrow>
     queueView s' = queueView s \<and> modeView s' = modeView s
     \<and> (\<exists>cs. trace s' = trace s @ map Discord cs)"

definition threeHumansEnv :: env where
  "threeHumansEnv =
     exampleEnv\<lparr>channelFetch := GuildVoice [\<lparr>member_id = 1, is_bot = False\<rparr>,
                                            \<lparr>member_id = 2, is_bot = False\<rparr>,
                                            \<lparr>member_id = 4, is_bot = False\<rparr>,
                                            \<lparr>member_id = 3, is_bot = True\<rparr>]\<rparr>"

definition failingScriptsEnv :: env where
  "failingScriptsEnv = exampleEnv\<lparr>execOk := (\<lambda>p. False)\<rparr>"

definition passingVote :: vote_session where
  "passingVote = \<lparr>yesVotes = 2, noVotes = 1, votedUsers = {1, 2, 4}\<rparr>"

definition laterEnv :: env where
  "laterEnv = threeHumansEnv\<lparr>now := 200000\<rparr>"

definition afterFirstSkipVote :: bot where
  "afterFirstSkipVote =
     skipPollEnd exampleConfig threeHumansEnv passingVote
       (snd (skipCommand exampleConfig threeHumansEnv customBot))"

definition dueEvent :: guild_event where
  "dueEvent = exampleEvent\<lparr>ev_status := Scheduled\<rparr>"

section \<open>Properties\<close>

subsection \<open>Steps that only touch the managed event\<close>

lemma eventOnly_refl: "eventOnly s s"
  by (simp add: eventOnly_def)

lemma eventOnly_trans: "eventOnly s s' \<Longrightarrow> eventOnly s' s'' \<Longrightarrow> eventOnly s s''"
  unfolding eventOnly_def
  by (metis append.assoc map_append)

lemma eventOnly_emit: "eventOnly s s' \<Longrightarrow> eventOnly s (emit (Discord c) s')"
proof -
  assume a: "eventOnly s s'"
  then obtain cs where "trace s' = trace s @ map Discord cs" by (auto simp: eventOnly_def)
  then have "trace (emit (Discord c) s') = trace s @ map Discord (cs @ [c])"
    by (simp add: emit_def)
  with a show ?thesis
    unfolding eventOnly_def by (auto simp: emit_def queueView_def modeView_def simp del: map_append)
qed

lemma eventOnly_event: "eventOnly s s' \<Longrightarrow> eventOnly s (s'\<lparr>managedGuildEvent := m\<rparr>)"
  by (simp add: eventOnly_def queueView_def modeView_def)

lemmas eventOnly_intros = eventOnly_emit eventOnly_event

lemma eventOnly_apiFailed: "eventOnly s s' \<Longrightarrow> eventOnly s (snd (apiFailed err s'))"
  by (simp add: apiFailed_def eventOnly_event)

lemma eventOnly_activateIfDue:
  "eventOnly s s' \<Longrightarrow> eventOnly s (snd (activateIfDue e cur s'))"
  by (simp add: activateIfDue_def Let_def eventOnly_apiFailed eventOnly_emit eventOnly_event
           split: sum.split)

lemma eventOnly_editIfDifferent:
  "eventOnly s s' \<Longrightarrow> eventOnly s (snd (editIfDifferent e n cur s'))"
  by (simp add: editIfDifferent_def Let_def eventOnly_apiFailed eventOnly_activateIfDue
        eventOnly_emit eventOnly_event split: sum.split)

lemma eventOnly_applyEventName:
  "eventOnly s s' \<Longrightarrow> eventOnly s (snd (applyEventName e n ev s'))"
  by (simp add: applyEventName_def Let_def eventOnly_editIfDifferent
        eventOnly_emit eventOnly_event split: option.split)

lemma eventOnly_findOrCreate:
  "eventOnly s s' \<Longrightarrow> eventOnly s (snd (findOrCreateManagedEvent cfg e s'))"
  unfolding findOrCreateManagedEvent_def
  apply (cases "targetVoiceChannel cfg")
   apply simp
  apply (cases "fetchEvents e")
   apply (simp add: eventOnly_emit)
  apply (simp add: Let_def split: option.split sum.split
               add: eventOnly_emit eventOnly_event)
  done

lemma eventOnly_reacquire:
  "eventOnly s s' \<Longrightarrow>
   eventOnly s (case findOrCreateManagedEvent cfg e s' of (r, s) \<Rightarrow> s\<lparr>managedGuildEvent := r\<rparr>)"
  using eventOnly_findOrCreate [of s s' cfg e]
  by (cases "findOrCreateManagedEvent cfg e s'") (simp add: eventOnly_event)

lemma eventOnly_update:
  assumes "eventOnly s s'"
  shows "eventOnly s (snd (updateEventNameInternal cfg e n s'))"
proof -
  define s1 where "s1 = (if needsReacquire (managedGuildEvent s') \<and> guildCached e
             then (case findOrCreateManagedEvent cfg e s' of (r, s) \<Rightarrow> s\<lparr>managedGuildEvent := r\<rparr>)
             else s')"
  have s1: "eventOnly s s1" using assms by (simp add: s1_def eventOnly_reacquire)
  have "updateEventNameInternal cfg e n s' =
          (if targetVoiceChannel cfg = None then (False, s')
           else if needsReacquire (managedGuildEvent s1) then (False, s1)
           else case managedGuildEvent s1 of
                  None \<Rightarrow> (False, s1)
                | Some ev \<Rightarrow>
                    (case finalEventName (isCustomModeActive s1) ev n of
                       None \<Rightarrow> (False, s1)
                     | Some finalName \<Rightarrow> applyEventName e finalName ev s1))"
    unfolding updateEventNameInternal_def Let_def s1_def by (rule refl)
  then show ?thesis
    using assms s1 by (simp add: eventOnly_applyEventName split: option.split)
qed

subsection \<open>The download queue\<close>

lemma queueView_updates [simp]:
  "queueView (s\<lparr>isCustomModeActive := a\<rparr>) = queueView s"
  "queueView (s\<lparr>customModeTimerId := b\<rparr>) = queueView s"
  "queueView (s\<lparr>stillWatchingPromptMessage := c\<rparr>) = queueView s"
  "queueView (s\<lparr>skipVoteCooldownEndTimestamp := t\<rparr>) = queueView s"
  "queueView (s\<lparr>consecutiveSkipVotes := n\<rparr>) = queueView s"
  "queueView (s\<lparr>vlcTitleCheckIntervalId := d\<rparr>) = queueView s"
  "queueView (s\<lparr>managedGuildEvent := m\<rparr>) = queueView s"
  "queueView (s\<lparr>trace := tr\<rparr>) = queueView s"
  by (simp_all add: queueView_def)

lemma queueView_emit [simp]: "queueView (emit x s) = queueView s"
  by (simp add: emit_def)

lemma queueView_send [simp]: "queueView (send m s) = queueView s"
  by (simp add: send_def)

lemma notify_fields [simp]:
  "isCustomModeActive (notify j m s) = isCustomModeActive s"
  "isYoutubeDownloadActive (notify j m s) = isYoutubeDownloadActive s"
  "currentDownloadJob (notify j m s) = currentDownloadJob s"
  "currentAbortController (notify j m s) = currentAbortController s"
  "youtubeQueue (notify j m s) = youtubeQueue s"
  "downloads (notify j m s) = downloads s"
  "aborted (notify j m s) = aborted s"
  "queueChecks (notify j m s) = queueChecks s"
  "arrivals (notify j m s) = arrivals s"
  "startedJobs (notify j m s) = startedJobs s"
  "finished (notify j m s) = finished s"
  by (simp_all add: notify_def send_def emit_def split: option.split)

lemma notify_trace:
  "messages (trace (notify j m s)) =
     messages (trace s) @ (case sourceChannel j of None \<Rightarrow> [] | Some ch \<Rightarrow> [m])"
proof -
  have "messages (xs @ [Send m]) = messages xs @ [m]" for xs
    by (induction xs rule: messages.induct) simp_all
  then show ?thesis
    by (simp add: notify_def send_def emit_def split: option.split)
qed

lemma queueView_update [simp]:
  "queueView (snd (updateEventNameInternal cfg e n s)) = queueView s"
  using eventOnly_update [OF eventOnly_refl, of s cfg e n] by (simp add: eventOnly_def)

lemma queueView_runAhkScript [simp]: "queueView (snd (runAhkScript e p s)) = queueView s"
  by (simp add: runAhkScript_def Let_def split: option.splits)

lemma queueView_timers [simp]:
  "queueView (stopVlcTitleCheckInterval s) = queueView s"
  "queueView (startVlcTitleCheckInterval cfg s) = queueView s"
  "queueView (startCustomModeTimer cfg s) = queueView s"
  by (simp_all add: stopVlcTitleCheckInterval_def startVlcTitleCheckInterval_def
        startCustomModeTimer_def)

lemma queueView_toggleCommand: "queueView (toggleCommand cfg e a s) = queueView s"
  by (simp add: toggleCommand_def Let_def)

lemma snd_runAhkScript_eq:
  "runAhkScript e p s = (r, s') \<Longrightarrow> queueView s' = queueView s"
  using queueView_runAhkScript [of e p s] by simp

lemma queueView_customPollEnd: "queueView (customPollEnd cfg e v s) = queueView s"
  by (auto simp: customPollEnd_def customPollFailure_def Let_def
           split: prod.splits sum.splits dest!: snd_runAhkScript_eq)

lemma queueView_endCustomMode: "queueView (snd (endCustomMode cfg e ctx s)) = queueView s"
  by (auto simp: endCustomMode_def Let_def
           split: prod.splits sum.splits dest!: snd_runAhkScript_eq)

lemma queueInvariant_cong:
  "queueView s' = queueView s \<Longrightarrow> queueInvariant s' = queueInvariant s"
  by (simp add: queueView_def queueInvariant_def)

lemma queueInvariant_initial: "queueInvariant initialBot"
  by (simp add: queueInvariant_def initialBot_def)

lemma queueInvariant_enqueueJobs:
  assumes "queueInvariant s"
  shows "queueInvariant (enqueueJobs js s)"
proof -
  have "subseq (startedJobs s @ youtubeQueue s) (arrivals s)"
    using assms by (simp add: queueInvariant_def)
  then have "subseq ((startedJobs s @ youtubeQueue s) @ take PLAYLIST_VIDEO_LIMIT js)
                    (arrivals s @ take PLAYLIST_VIDEO_LIMIT js)"
    by (rule list_emb_append_mono) simp
  then show ?thesis
    using assms by (simp add: queueInvariant_def enqueueJobs_def Let_def)
qed

lemma processYoutubeQueue_busy:
  "isYoutubeDownloadActive s \<Longrightarrow> processYoutubeQueue cfg e s = s"
  by (simp add: processYoutubeQueue_def)

lemma processYoutubeQueue_idle:
  "\<not> isYoutubeDownloadActive s \<Longrightarrow> youtubeQueue s = [] \<Longrightarrow> processYoutubeQueue cfg e s = s"
  by (simp add: processYoutubeQueue_def)

lemma processYoutubeQueue_unconfigured:
  assumes "\<not> isYoutubeDownloadActive s" "youtubeQueue s = j # rest"
    "\<not> truthy (videoDownloadFolder cfg)"
  shows "processYoutubeQueue cfg e s =
           notify j (MsgFolderNotConfigured j)
             (s\<lparr>isYoutubeDownloadActive := False, currentDownloadJob := None,
                currentAbortController := None, youtubeQueue := rest,
                startedJobs := startedJobs s @ [j], queueChecks := queueChecks s + 1\<rparr>)"
  using assms
  by (cases "sourceChannel j")
     (auto simp add: processYoutubeQueue_def truthy_def releaseUnconfigured_def notify_def
        send_def emit_def Let_def split: option.splits)

lemma processYoutubeQueue_starts:
  assumes "\<not> isYoutubeDownloadActive s" "youtubeQueue s = j # rest"
    "videoDownloadFolder cfg = Some root" "root \<noteq> []"
  shows "processYoutubeQueue cfg e s =
           notify j (MsgDownloadStarting j
                       (dl_note (newDownload e root j (length (startedJobs s)))))
             (s\<lparr>isYoutubeDownloadActive := True, currentDownloadJob := Some j,
                currentAbortController := Some (length (startedJobs s)), youtubeQueue := rest,
                startedJobs := startedJobs s @ [j],
                downloads := downloads s @ [newDownload e root j (length (startedJobs s))]\<rparr>)"
  using assms
  by (cases "sourceChannel j")
     (simp_all add: processYoutubeQueue_def notify_def send_def emit_def Let_def)

lemma newDownload_fields [simp]:
  "dl_job (newDownload e root j c) = j" "dl_signal (newDownload e root j c) = c"
  by (simp_all add: newDownload_def split: prod.splits)

lemma subseq_started_head:
  "subseq (xs @ j # rest) zs \<Longrightarrow> subseq ((xs @ [j]) @ rest) zs"
  by simp

lemma queueInvariant_processYoutubeQueue:
  assumes inv: "queueInvariant s"
  shows "queueInvariant (processYoutubeQueue cfg e (s\<lparr>queueChecks := queueChecks s - Suc 0\<rparr>))"
proof -
  let ?s = "s\<lparr>queueChecks := queueChecks s - Suc 0\<rparr>"
  show ?thesis
  proof (cases "isYoutubeDownloadActive s")
    case True
    then have "processYoutubeQueue cfg e ?s = ?s" by (simp add: processYoutubeQueue_busy)
    then show ?thesis using inv True by (simp add: queueInvariant_def)
  next
    case idle: False
    show ?thesis
    proof (cases "youtubeQueue s")
      case Nil
      then have "processYoutubeQueue cfg e ?s = ?s" using idle by (simp add: processYoutubeQueue_idle)
      then show ?thesis using inv idle Nil by (simp add: queueInvariant_def)
    next
      case (Cons j rest)
      have nodl: "downloads s = []" using inv idle by (simp add: queueInvariant_def)
      have sub: "subseq ((startedJobs s @ [j]) @ rest) (arrivals s)"
        using inv Cons by (simp add: queueInvariant_def)
      have ab: "\<forall>c\<in>aborted s. c < Suc (length (startedJobs s))"
        using inv by (auto simp: queueInvariant_def)
      show ?thesis
      proof (cases "truthy (videoDownloadFolder cfg)")
        case False
        have "processYoutubeQueue cfg e ?s =
           notify j (MsgFolderNotConfigured j)
             (?s\<lparr>isYoutubeDownloadActive := False, currentDownloadJob := None,
                currentAbortController := None, youtubeQueue := rest,
                startedJobs := startedJobs ?s @ [j], queueChecks := queueChecks ?s + 1\<rparr>)"
          by (rule processYoutubeQueue_unconfigured) (use idle Cons False in simp_all)
        then show ?thesis using nodl sub ab by (simp add: queueInvariant_def)
      next
        case True
        then obtain root where root: "videoDownloadFolder cfg = Some root" "root \<noteq> []"
          by (auto simp: truthy_def split: option.splits)
        have "processYoutubeQueue cfg e ?s =
           notify j (MsgDownloadStarting j
                       (dl_note (newDownload e root j (length (startedJobs ?s)))))
             (?s\<lparr>isYoutubeDownloadActive := True, currentDownloadJob := Some j,
                currentAbortController := Some (length (startedJobs ?s)), youtubeQueue := rest,
                startedJobs := startedJobs ?s @ [j],
                downloads := downloads ?s @ [newDownload e root j (length (startedJobs ?s))]\<rparr>)"
          by (rule processYoutubeQueue_starts) (use idle Cons root in simp_all)
        then show ?thesis using nodl sub ab by (simp add: queueInvariant_def)
      qed
    qed
  qed
qed

lemma queueInvariant_settleDownload:
  assumes inv: "queueInvariant s"
  shows "queueInvariant (settleDownload n outcome s)"
proof (cases "n < length (downloads s)")
  case False
  then show ?thesis using inv by (simp add: settleDownload_def)
next
  case True
  then have n: "n = 0" and one: "length (downloads s) = 1"
    using inv by (auto simp: queueInvariant_def)
  then have empty: "take n (downloads s) @ drop (Suc n) (downloads s) = []" by simp
  have sub: "subseq (startedJobs s @ youtubeQueue s) (arrivals s)"
    and ab: "\<forall>c\<in>aborted s. c < length (startedJobs s)"
    using inv by (auto simp: queueInvariant_def)
  show ?thesis
    using True sub ab
    unfolding queueInvariant_def settleDownload_def Let_def
    by (simp add: empty)
qed

lemma subseq_filter_queue:
  "subseq (xs @ ys) zs \<Longrightarrow> subseq (xs @ filter P ys) zs"
  by (meson list_emb_append_mono subseq_filter_left subseq_order.order_refl subseq_order.trans)

lemma subseq_drop_queue:
  "subseq (xs @ ys) zs \<Longrightarrow> subseq xs zs"
  using subseq_filter_queue [of xs ys zs "\<lambda>x. False"] by simp

lemma queueInvariant_abortCurrent:
  assumes inv: "queueInvariant s"
  shows "queueInvariant (abortCurrent s)"
proof (cases "currentAbortController s")
  case None
  then show ?thesis using inv by (simp add: abortCurrent_def)
next
  case (Some c)
  then have act: "isYoutubeDownloadActive s" using inv by (auto simp: queueInvariant_def)
  then obtain d where "d \<in> set (downloads s)" using inv
    by (cases "downloads s") (auto simp: queueInvariant_def)
  then have "c < length (startedJobs s)" using inv Some by (auto simp: queueInvariant_def)
  then show ?thesis
    using inv Some act
    by (simp add: queueInvariant_def abortCurrent_def abortController_def emit_def)
qed

lemma abortCurrent_queue [simp]: "youtubeQueue (abortCurrent s) = youtubeQueue s"
  by (simp add: abortCurrent_def abortController_def emit_def split: option.splits)

lemma queueInvariant_setQueue:
  assumes inv: "queueInvariant s" and sub: "subseq q (youtubeQueue s)"
  shows "queueInvariant (s\<lparr>youtubeQueue := q\<rparr>)"
proof -
  have "subseq (startedJobs s @ q) (startedJobs s @ youtubeQueue s)"
    using sub by (simp add: list_emb_append_mono)
  moreover have "subseq (startedJobs s @ youtubeQueue s) (arrivals s)"
    using inv by (simp add: queueInvariant_def)
  ultimately have "subseq (startedJobs s @ q) (arrivals s)"
    by (rule subseq_order.trans)
  moreover have "q \<noteq> [] \<Longrightarrow> youtubeQueue s \<noteq> []" using sub by auto
  ultimately show ?thesis using inv by (auto simp: queueInvariant_def)
qed

lemma queueInvariant_send: "queueInvariant (send m s) = queueInvariant s"
  by (rule queueInvariant_cong) simp

lemma queueInvariant_cancelCommand:
  assumes inv: "queueInvariant s"
  shows "queueInvariant (cancelCommand cfg uid s)"
proof -
  have "queueInvariant (if b then abortCurrent s else s)" for b
    using inv by (simp add: queueInvariant_abortCurrent)
  then have step: "queueInvariant ((if b then abortCurrent s else s)
                 \<lparr>youtubeQueue := filter (\<lambda>j. user j \<noteq> uid) (youtubeQueue s)\<rparr>)" for b
    by (rule queueInvariant_setQueue) simp
  show ?thesis
    using inv step [of True] step [of False]
    by (simp add: cancelCommand_def Let_def queueInvariant_send)
qed

lemma queueInvariant_cancelAllCommand:
  assumes inv: "queueInvariant s"
  shows "queueInvariant (cancelAllCommand cfg a s)"
proof -
  have "queueInvariant (if b then abortCurrent s else s)" for b
    using inv by (simp add: queueInvariant_abortCurrent)
  then have step: "queueInvariant ((if b then abortCurrent s else s)\<lparr>youtubeQueue := []\<rparr>)" for b
    by (rule queueInvariant_setQueue) simp
  show ?thesis
    using inv step [of True] step [of False]
    by (simp add: cancelAllCommand_def Let_def queueInvariant_send)
qed

lemma queueInvariant_exec_event:
  "queueInvariant s \<Longrightarrow> queueInvariant (exec_event cfg s ev)"
  by (cases ev)
     (simp_all add: queueInvariant_enqueueJobs queueInvariant_processYoutubeQueue
        queueInvariant_settleDownload queueInvariant_cancelCommand
        queueInvariant_cancelAllCommand
        queueInvariant_cong [OF queueView_toggleCommand]
        queueInvariant_cong [OF queueView_customPollEnd]
        queueInvariant_cong [OF queueView_endCustomMode])

lemma queueInvariant_run:
  "queueInvariant s \<Longrightarrow> queueInvariant (run cfg evs s)"
  unfolding run_def
  by (induction evs arbitrary: s) (simp_all add: queueInvariant_exec_event)

lemmas unfold_handlers =
  run_def enqueueJobs_def processYoutubeQueue_def releaseUnconfigured_def newDownload_def
  resolveSubfolder_def subfolderNote_def settleDownload_def downloadStatus_def
  cancelCommand_def cancelAllCommand_def abortCurrent_def abortController_def
  toggleCommand_def startCustomModeTimer_def startVlcTitleCheckInterval_def
  stopVlcTitleCheckInterval_def updateEventNameInternal_def needsReacquire_def
  findOrCreateManagedEvent_def finalEventName_def applyEventName_def editIfDifferent_def
  activateIfDue_def apiFailed_def terminal_def send_def emit_def notify_def truthy_def Let_def
  PLAYLIST_VIDEO_LIMIT_def js_trim_def js_space_def

lemmas unfold_examples =
  exampleConfig_def exampleEnv_def exampleEvent_def jobA_def jobB_def jobC_def
  initialBot_def customBot_def

lemma settle_then_timer:
  fixes outcome :: dl_outcome and e :: env
  assumes inv: "queueInvariant s" and d: "downloads s = [d]"
    and q: "youtubeQueue s = j # rest" and root: "truthy (videoDownloadFolder cfg)"
  shows "(let s1 = exec_event cfg s (DownloadSettles 0 outcome);
              s2 = exec_event cfg s1 (QueueTimer e)
          in finished s1 = finished s @
                       [(dl_job d, downloadStatus (dl_signal d \<in> aborted s) outcome)]
             \<and> downloads s1 = [] \<and> \<not> isYoutubeDownloadActive s1
             \<and> queueChecks s1 > 0
             \<and> map dl_job (downloads s2) = [j] \<and> currentDownloadJob s2 = Some j
             \<and> isYoutubeDownloadActive s2 \<and> youtubeQueue s2 = rest
             \<and> startedJobs s2 = startedJobs s @ [j])"
proof -
  define s1 where "s1 = exec_event cfg s (DownloadSettles 0 outcome)"
  define s2 where "s2 = exec_event cfg s1 (QueueTimer e)"
  define t where "t = notify (dl_job d) (MsgDownloadFinished (dl_job d)
                        (downloadStatus (dl_signal d \<in> aborted s) outcome)) s"
  have t: "queueView t = queueView s" by (simp add: t_def queueView_def)
  have s1: "s1 = t\<lparr>isYoutubeDownloadActive := False, currentDownloadJob := None,
             currentAbortController := None, queueChecks := queueChecks s + 1,
             downloads := [],
             finished := finished s @ [(dl_job d, downloadStatus (dl_signal d \<in> aborted s) outcome)]\<rparr>"
    unfolding s1_def t_def using d by (simp add: settleDownload_def Let_def)
  have tf: "youtubeQueue t = youtubeQueue s" "startedJobs t = startedJobs s"
    using t by (simp_all add: queueView_def)
  obtain r where r: "videoDownloadFolder cfg = Some r" "r \<noteq> []"
    using root by (auto simp: truthy_def split: option.splits)
  let ?t = "s1\<lparr>queueChecks := queueChecks s1 - 1\<rparr>"
  have "s2 = processYoutubeQueue cfg e ?t"
    unfolding s2_def by (simp add: s1)
  also have "\<dots> = notify j (MsgDownloadStarting j
                       (dl_note (newDownload e r j (length (startedJobs ?t)))))
             (?t\<lparr>isYoutubeDownloadActive := True, currentDownloadJob := Some j,
                currentAbortController := Some (length (startedJobs ?t)), youtubeQueue := rest,
                startedJobs := startedJobs ?t @ [j],
                downloads := downloads ?t @ [newDownload e r j (length (startedJobs ?t))]\<rparr>)"
    by (rule processYoutubeQueue_starts) (simp_all add: s1 q r tf)
  finally have s2: "s2 = \<dots>" .
  have "finished s1 = finished s @
                       [(dl_job d, downloadStatus (dl_signal d \<in> aborted s) outcome)]
             \<and> downloads s1 = [] \<and> \<not> isYoutubeDownloadActive s1
             \<and> queueChecks s1 > 0"
    by (simp add: s1)
  moreover have "map dl_job (downloads s2) = [j] \<and> currentDownloadJob s2 = Some j
             \<and> isYoutubeDownloadActive s2 \<and> youtubeQueue s2 = rest
             \<and> startedJobs s2 = startedJobs s @ [j]"
    by (simp add: s2) (simp add: s1 tf)
  ultimately show ?thesis
    unfolding Let_def s1_def s2_def by simp
qed

lemma timer_takes_head:
  "startedJobs (exec_event cfg s (QueueTimer e)) = startedJobs s
   \<and> youtubeQueue (exec_event cfg s (QueueTimer e)) = youtubeQueue s
   \<or> (\<exists>j rest. youtubeQueue s = j # rest
         \<and> startedJobs (exec_event cfg s (QueueTimer e)) = startedJobs s @ [j]
         \<and> youtubeQueue (exec_event cfg s (QueueTimer e)) = rest)"
proof (cases "queueChecks s = 0 \<or> isYoutubeDownloadActive s \<or> youtubeQueue s = []")
  case True
  then show ?thesis by (auto simp: processYoutubeQueue_def)
next
  case False
  then obtain j rest where q: "youtubeQueue s = j # rest" by (cases "youtubeQueue s") auto
  let ?t = "s\<lparr>queueChecks := queueChecks s - 1\<rparr>"
  have idle: "\<not> isYoutubeDownloadActive ?t" "youtubeQueue ?t = j # rest" using False q by simp_all
  show ?thesis
  proof (cases "truthy (videoDownloadFolder cfg)")
    case True
    then obtain r where r: "videoDownloadFolder cfg = Some r" "r \<noteq> []"
      by (auto simp: truthy_def split: option.splits)
    show ?thesis
      using False q processYoutubeQueue_starts [OF idle r, of e] by simp
  next
    case nf: False
    show ?thesis
      using False q processYoutubeQueue_unconfigured [OF idle nf, of e] by simp
  qed
qed

text \<open>
  Claim C2. Whatever sequence of enqueue, cancel, cancel-all, queue-timer and
  download-completion events (and mode changes) the bot has processed since start-up:
  at most one invocation of \<^verbatim>\<open>processYoutubeQueue\<close> is downloading, and the flag
  \<^verbatim>\<open>isYoutubeDownloadActive\<close> is set exactly then; the jobs dequeued so far followed by
  the jobs still queued form a subsequence of the arrivals, so jobs start in arrival
  order; a queue check is pending whenever jobs wait and nothing runs; a queue timer
  either starts nothing or dequeues the head of the queue; and when the download in
  flight settles, with any outcome and aborted or not, the \<^verbatim>\<open>finally\<close> block releases
  the flag and schedules a check, and that check dequeues and starts the next job.
\<close>

theorem download_queue_single_worker_fifo:
  fixes cfg :: config and evs :: "event list"
  defines "s \<equiv> run cfg evs initialBot"
  shows "length (downloads s) \<le> 1
       \<and> (isYoutubeDownloadActive s \<longleftrightarrow> downloads s \<noteq> [])
       \<and> subseq (startedJobs s @ youtubeQueue s) (arrivals s)
       \<and> (\<not> isYoutubeDownloadActive s \<and> youtubeQueue s \<noteq> [] \<longrightarrow> queueChecks s > 0)
       \<and> (\<forall>e. startedJobs (exec_event cfg s (QueueTimer e)) = startedJobs s
                \<and> youtubeQueue (exec_event cfg s (QueueTimer e)) = youtubeQueue s
              \<or> (\<exists>j rest. youtubeQueue s = j # rest
                    \<and> startedJobs (exec_event cfg s (QueueTimer e)) = startedJobs s @ [j]
                    \<and> youtubeQueue (exec_event cfg s (QueueTimer e)) = rest))
       \<and> (\<forall>d j rest outcome e.
             downloads s = [d] \<and> youtubeQueue s = j # rest \<and> truthy (videoDownloadFolder cfg)
             \<longrightarrow> (let s1 = exec_event cfg s (DownloadSettles 0 outcome);
                      s2 = exec_event cfg s1 (QueueTimer e)
                  in finished s1 = finished s @
                       [(dl_job d, downloadStatus (dl_signal d \<in> aborted s) outcome)]
                     \<and> downloads s1 = [] \<and> \<not> isYoutubeDownloadActive s1
                     \<and> queueChecks s1 > 0
                     \<and> map dl_job (downloads s2) = [j] \<and> currentDownloadJob s2 = Some j
                     \<and> isYoutubeDownloadActive s2 \<and> youtubeQueue s2 = rest
                     \<and> startedJobs s2 = startedJobs s @ [j]))"
proof -
  have inv: "queueInvariant s"
    unfolding s_def by (rule queueInvariant_run) (rule queueInvariant_initial)
  have a: "length (downloads s) \<le> 1 \<and> (isYoutubeDownloadActive s \<longleftrightarrow> downloads s \<noteq> [])
       \<and> subseq (startedJobs s @ youtubeQueue s) (arrivals s)
       \<and> (\<not> isYoutubeDownloadActive s \<and> youtubeQueue s \<noteq> [] \<longrightarrow> queueChecks s > 0)"
    using inv by (simp add: queueInvariant_def)
  have b: "\<forall>e. startedJobs (exec_event cfg s (QueueTimer e)) = startedJobs s
                \<and> youtubeQueue (exec_event cfg s (QueueTimer e)) = youtubeQueue s
              \<or> (\<exists>j rest. youtubeQueue s = j # rest
                    \<and> startedJobs (exec_event cfg s (QueueTimer e)) = startedJobs s @ [j]
                    \<and> youtubeQueue (exec_event cfg s (QueueTimer e)) = rest)"
    using timer_takes_head by blast
  have c: "\<forall>d j rest outcome e.
             downloads s = [d] \<and> youtubeQueue s = j # rest \<and> truthy (videoDownloadFolder cfg)
             \<longrightarrow> (let s1 = exec_event cfg s (DownloadSettles 0 outcome);
                      s2 = exec_event cfg s1 (QueueTimer e)
                  in finished s1 = finished s @
                       [(dl_job d, downloadStatus (dl_signal d \<in> aborted s) outcome)]
                     \<and> downloads s1 = [] \<and> \<not> isYoutubeDownloadActive s1
                     \<and> queueChecks s1 > 0
                     \<and> map dl_job (downloads s2) = [j] \<and> currentDownloadJob s2 = Some j
                     \<and> isYoutubeDownloadActive s2 \<and> youtubeQueue s2 = rest
                     \<and> startedJobs s2 = startedJobs s @ [j])"
    by (intro allI impI) (elim conjE, rule settle_then_timer [OF inv])
  from a b c show ?thesis by (intro conjI) simp_all
qed

text \<open>
  The theorem after user 1 queued a video, user 2 one and user 1 another, the first
  started and user 2 cancelled: the download of the first fails and the third starts.
\<close>

theorem download_queue_single_worker_fifo_witness:
  "downloads (run exampleConfig
       [Toggle exampleEnv True, Youtube [jobA, jobB, jobC], QueueTimer exampleEnv, Cancel 2]
       initialBot)
     = [\<lparr>dl_job = jobA, dl_signal = 0, dl_path = ''/videos'', dl_note = NoNote\<rparr>]
   \<and> youtubeQueue (run exampleConfig
       [Toggle exampleEnv True, Youtube [jobA, jobB, jobC], QueueTimer exampleEnv, Cancel 2]
       initialBot) = [jobC]
   \<and> truthy (videoDownloadFolder exampleConfig)
   \<and> currentDownloadJob
        (exec_event exampleConfig
          (exec_event exampleConfig
            (run exampleConfig
              [Toggle exampleEnv True, Youtube [jobA, jobB, jobC], QueueTimer exampleEnv, Cancel 2]
              initialBot)
            (DownloadSettles 0 Rejected))
          (QueueTimer exampleEnv)) = Some jobC"
proof -
  let ?s = "run exampleConfig
       [Toggle exampleEnv True, Youtube [jobA, jobB, jobC], QueueTimer exampleEnv, Cancel 2]
       initialBot"
  have h: "downloads ?s = [\<lparr>dl_job = jobA, dl_signal = 0, dl_path = ''/videos'', dl_note = NoNote\<rparr>]
      \<and> youtubeQueue ?s = [jobC] \<and> truthy (videoDownloadFolder exampleConfig)"
    by (simp add: unfold_handlers unfold_examples)
  have "\<forall>d j rest outcome e.
             downloads ?s = [d] \<and> youtubeQueue ?s = j # rest
             \<and> truthy (videoDownloadFolder exampleConfig)
             \<longrightarrow> (let s1 = exec_event exampleConfig ?s (DownloadSettles 0 outcome);
                      s2 = exec_event exampleConfig s1 (QueueTimer e)
                  in finished s1 = finished ?s @
                       [(dl_job d, downloadStatus (dl_signal d \<in> aborted ?s) outcome)]
                     \<and> downloads s1 = [] \<and> \<not> isYoutubeDownloadActive s1
                     \<and> queueChecks s1 > 0
                     \<and> map dl_job (downloads s2) = [j] \<and> currentDownloadJob s2 = Some j
                     \<and> isYoutubeDownloadActive s2 \<and> youtubeQueue s2 = rest
                     \<and> startedJobs s2 = startedJobs ?s @ [j])"
    using download_queue_single_worker_fifo [of exampleConfig
       "[Toggle exampleEnv True, Youtube [jobA, jobB, jobC], QueueTimer exampleEnv, Cancel 2]"]
    by (elim conjE)
  from this [rule_format, of _ jobC "[]" Rejected exampleEnv] h
  have "currentDownloadJob
        (exec_event exampleConfig (exec_event exampleConfig ?s (DownloadSettles 0 Rejected))
          (QueueTimer exampleEnv)) = Some jobC"
    unfolding Let_def by blast
  with h show ?thesis by blast
qed

lemma downloads_cases:
  assumes "queueInvariant s"
  obtains (idle) "downloads s = []" "\<not> isYoutubeDownloadActive s"
      "currentDownloadJob s = None" "currentAbortController s = None"
  | (busy) d where "downloads s = [d]" "isYoutubeDownloadActive s"
      "currentDownloadJob s = Some (dl_job d)" "currentAbortController s = Some (dl_signal d)"
proof (cases "downloads s")
  case Nil
  then show ?thesis using assms idle by (simp add: queueInvariant_def)
next
  case (Cons d ds)
  then have "ds = []" using assms by (simp add: queueInvariant_def)
  then show ?thesis using assms Cons busy [of d] by (simp add: queueInvariant_def)
qed

lemma cancelCommand_idle:
  assumes "isCustomModeActive s" "truthy (videoDownloadFolder cfg)" "\<not> isYoutubeDownloadActive s"
  shows "cancelCommand cfg uid s =
           s\<lparr>youtubeQueue := filter (\<lambda>j. user j \<noteq> uid) (youtubeQueue s),
             trace := trace s @ [Send (MsgCancelResult False
               (length (youtubeQueue s) - length (filter (\<lambda>j. user j \<noteq> uid) (youtubeQueue s))))]\<rparr>"
  using assms by (simp add: cancelCommand_def Let_def send_def emit_def)

lemma cancelCommand_busy:
  assumes "isCustomModeActive s" "truthy (videoDownloadFolder cfg)" "isYoutubeDownloadActive s"
    "currentDownloadJob s = Some j" "currentAbortController s = Some c"
  shows "cancelCommand cfg uid s =
           s\<lparr>aborted := (if user j = uid then insert c (aborted s) else aborted s),
             youtubeQueue := filter (\<lambda>j. user j \<noteq> uid) (youtubeQueue s),
             trace := trace s @ (if user j = uid then [Abort c] else []) @
               [Send (MsgCancelResult (user j = uid)
               (length (youtubeQueue s) - length (filter (\<lambda>j. user j \<noteq> uid) (youtubeQueue s))))]\<rparr>"
  using assms
  by (simp add: cancelCommand_def Let_def send_def emit_def abortCurrent_def abortController_def)

lemma cancelAllCommand_idle:
  assumes "isCustomModeActive s" "truthy (videoDownloadFolder cfg)" "\<not> isYoutubeDownloadActive s"
  shows "cancelAllCommand cfg True s =
           s\<lparr>youtubeQueue := [],
             trace := trace s @ [Send (MsgCancelAllResult False (length (youtubeQueue s)))]\<rparr>"
  using assms by (simp add: cancelAllCommand_def Let_def send_def emit_def)

lemma cancelAllCommand_busy:
  assumes "isCustomModeActive s" "truthy (videoDownloadFolder cfg)" "isYoutubeDownloadActive s"
    "currentAbortController s = Some c"
  shows "cancelAllCommand cfg True s =
           s\<lparr>aborted := insert c (aborted s), youtubeQueue := [],
             trace := trace s @ [Abort c, Send (MsgCancelAllResult True (length (youtubeQueue s)))]\<rparr>"
  using assms
  by (simp add: cancelAllCommand_def Let_def send_def emit_def abortCurrent_def abortController_def)

lemma cancelAll_settles:
  fixes outcome :: dl_outcome and e :: env
  assumes inv: "queueInvariant s"
    and custom: "isCustomModeActive s" and folder: "truthy (videoDownloadFolder cfg)"
  shows "(let s1 = exec_event cfg (cancelAllCommand cfg True s) (DownloadSettles 0 outcome);
              s2 = exec_event cfg s1 (QueueTimer e)
          in downloads s2 = [] \<and> \<not> isYoutubeDownloadActive s2
             \<and> currentDownloadJob s2 = None \<and> youtubeQueue s2 = []
             \<and> (\<forall>d. downloads s = [d] \<longrightarrow> finished s2 = finished s @ [(dl_job d, Cancelled)]))"
  using inv
proof (cases rule: downloads_cases)
  case idle
  show ?thesis
    unfolding Let_def cancelAllCommand_idle [OF custom folder idle(2)]
    using idle by (simp add: settleDownload_def processYoutubeQueue_def)
next
  case (busy d)
  show ?thesis
    unfolding Let_def cancelAllCommand_busy [OF custom folder busy(2) busy(4)]
    using busy
    by (simp add: settleDownload_def processYoutubeQueue_def Let_def downloadStatus_def)
qed

text \<open>
  Claim C7. In Custom mode with a download folder configured, in any state the bot
  can reach: \<^verbatim>\<open>!cancel\<close> keeps exactly the queued jobs of other requesters, in their
  order, and fires the abort signal of the download in flight if and only if that
  download was requested by the same user; \<^verbatim>\<open>!cancelall\<close> by an admin empties the queue
  and fires the abort signal of the download in flight whoever requested it. Neither
  removes the download in flight itself: once its promise settles, whatever the outcome,
  it is recorded as cancelled, and after the queue check that follows nothing is active
  and the queue is empty.
\<close>

theorem cancel_removes_own_jobs_cancel_all_clears:
  fixes cfg :: config and evs :: "event list" and uid :: user_id
  defines "s \<equiv> run cfg evs initialBot"
  assumes custom: "isCustomModeActive s" and folder: "truthy (videoDownloadFolder cfg)"
  shows "youtubeQueue (cancelCommand cfg uid s) = filter (\<lambda>j. user j \<noteq> uid) (youtubeQueue s)
       \<and> downloads (cancelCommand cfg uid s) = downloads s
       \<and> (\<forall>d \<in> set (downloads s).
             dl_signal d \<in> aborted (cancelCommand cfg uid s)
             \<longleftrightarrow> dl_signal d \<in> aborted s \<or> user (dl_job d) = uid)
       \<and> youtubeQueue (cancelAllCommand cfg True s) = []
       \<and> downloads (cancelAllCommand cfg True s) = downloads s
       \<and> (\<forall>d \<in> set (downloads s). dl_signal d \<in> aborted (cancelAllCommand cfg True s))
       \<and> (\<forall>outcome e.
             let s1 = exec_event cfg (cancelAllCommand cfg True s) (DownloadSettles 0 outcome);
                 s2 = exec_event cfg s1 (QueueTimer e)
             in downloads s2 = [] \<and> \<not> isYoutubeDownloadActive s2
                \<and> currentDownloadJob s2 = None \<and> youtubeQueue s2 = []
                \<and> (\<forall>d. downloads s = [d] \<longrightarrow> finished s2 = finished s @ [(dl_job d, Cancelled)]))"
proof -
  have inv: "queueInvariant s"
    unfolding s_def by (rule queueInvariant_run) (rule queueInvariant_initial)
  have settled: "\<forall>outcome e.
             let s1 = exec_event cfg (cancelAllCommand cfg True s) (DownloadSettles 0 outcome);
                 s2 = exec_event cfg s1 (QueueTimer e)
             in downloads s2 = [] \<and> \<not> isYoutubeDownloadActive s2
                \<and> currentDownloadJob s2 = None \<and> youtubeQueue s2 = []
                \<and> (\<forall>d. downloads s = [d] \<longrightarrow> finished s2 = finished s @ [(dl_job d, Cancelled)])"
    by (intro allI) (rule cancelAll_settles [OF inv custom folder])
  from inv have "youtubeQueue (cancelCommand cfg uid s) = filter (\<lambda>j. user j \<noteq> uid) (youtubeQueue s)
       \<and> downloads (cancelCommand cfg uid s) = downloads s
       \<and> (\<forall>d \<in> set (downloads s).
             dl_signal d \<in> aborted (cancelCommand cfg uid s)
             \<longleftrightarrow> dl_signal d \<in> aborted s \<or> user (dl_job d) = uid)
       \<and> youtubeQueue (cancelAllCommand cfg True s) = []
       \<and> downloads (cancelAllCommand cfg True s) = downloads s
       \<and> (\<forall>d \<in> set (downloads s). dl_signal d \<in> aborted (cancelAllCommand cfg True s))"
  proof (cases rule: downloads_cases)
    case idle
    show ?thesis
      unfolding cancelCommand_idle [OF custom folder idle(2)]
        cancelAllCommand_idle [OF custom folder idle(2)]
      using idle by simp
  next
    case (busy d)
    show ?thesis
      unfolding cancelCommand_busy [OF custom folder busy(2) busy(3) busy(4)]
        cancelAllCommand_busy [OF custom folder busy(2) busy(4)]
      using busy by simp
  qed
  with settled show ?thesis by (intro conjI) simp_all
qed

text \<open>
  The spec's third scenario: A (user 1) is downloading, B (user 2) and C (user 1) wait.
  A cancel by user 1 aborts A and leaves B; a cancel by user 2 does not abort A.
\<close>

theorem cancel_removes_own_jobs_cancel_all_clears_witness:
  "isCustomModeActive (run exampleConfig
       [Toggle exampleEnv True, Youtube [jobA, jobB, jobC], QueueTimer exampleEnv] initialBot)
   \<and> truthy (videoDownloadFolder exampleConfig)
   \<and> currentDownloadJob (run exampleConfig
       [Toggle exampleEnv True, Youtube [jobA, jobB, jobC], QueueTimer exampleEnv] initialBot)
     = Some jobA
   \<and> youtubeQueue (run exampleConfig
       [Toggle exampleEnv True, Youtube [jobA, jobB, jobC], QueueTimer exampleEnv] initialBot)
     = [jobB, jobC]
   \<and> youtubeQueue (cancelCommand exampleConfig 1 (run exampleConfig
       [Toggle exampleEnv True, Youtube [jobA, jobB, jobC], QueueTimer exampleEnv] initialBot))
     = [jobB]
   \<and> 0 \<in> aborted (cancelCommand exampleConfig 1 (run exampleConfig
       [Toggle exampleEnv True, Youtube [jobA, jobB, jobC], QueueTimer exampleEnv] initialBot))
   \<and> 0 \<notin> aborted (cancelCommand exampleConfig 2 (run exampleConfig
       [Toggle exampleEnv True, Youtube [jobA, jobB, jobC], QueueTimer exampleEnv] initialBot))
   \<and> youtubeQueue (cancelAllCommand exampleConfig True (run exampleConfig
       [Toggle exampleEnv True, Youtube [jobA, jobB, jobC], QueueTimer exampleEnv] initialBot))
     = []"
proof -
  let ?s = "run exampleConfig
       [Toggle exampleEnv True, Youtube [jobA, jobB, jobC], QueueTimer exampleEnv] initialBot"
  have h: "isCustomModeActive ?s \<and> truthy (videoDownloadFolder exampleConfig)
      \<and> currentDownloadJob ?s = Some jobA \<and> youtubeQueue ?s = [jobB, jobC]
      \<and> downloads ?s = [\<lparr>dl_job = jobA, dl_signal = 0, dl_path = ''/videos'', dl_note = NoNote\<rparr>]
      \<and> aborted ?s = {}"
    by (simp add: unfold_handlers unfold_examples)
  have u: "user jobA = 1" "user jobB = 2" "user jobC = 1"
    by (simp_all add: jobA_def jobB_def jobC_def)
  show ?thesis
    using h u
      cancel_removes_own_jobs_cancel_all_clears [of exampleConfig
        "[Toggle exampleEnv True, Youtube [jobA, jobB, jobC], QueueTimer exampleEnv]" 1]
      cancel_removes_own_jobs_cancel_all_clears [of exampleConfig
        "[Toggle exampleEnv True, Youtube [jobA, jobB, jobC], QueueTimer exampleEnv]" 2]
    by simp
qed

text \<open>
  Claim C10. While Custom mode is off, \<^verbatim>\<open>!cancel\<close> and an admin's \<^verbatim>\<open>!cancelall\<close> answer
  that downloads can only be cancelled in Custom mode and change nothing else: the
  queue, the active download and its abort signal stay as they were. (A \<^verbatim>\<open>!cancelall\<close>
  from a user who is not an admin is refused for lack of permission, in either mode.)
\<close>

theorem cancel_refused_in_scheduled_mode:
  assumes "\<not> isCustomModeActive s"
  shows "cancelCommand cfg uid s = s\<lparr>trace := trace s @ [Send MsgCancelOnlyInCustomMode]\<rparr>
       \<and> cancelAllCommand cfg True s = s\<lparr>trace := trace s @ [Send MsgCancelOnlyInCustomMode]\<rparr>
       \<and> cancelAllCommand cfg False s = s\<lparr>trace := trace s @ [Send MsgNoPermission]\<rparr>"
  using assms by (simp add: cancelCommand_def cancelAllCommand_def send_def emit_def)

text \<open>
  A download queued and started in Custom mode, then the mode toggled back: both
  commands leave the active download and the queued job alone.
\<close>

theorem cancel_refused_in_scheduled_mode_witness:
  "\<not> isCustomModeActive (run exampleConfig
       [Toggle exampleEnv True, Youtube [jobA, jobB], QueueTimer exampleEnv,
        Toggle exampleEnv True] initialBot)
   \<and> currentDownloadJob (run exampleConfig
       [Toggle exampleEnv True, Youtube [jobA, jobB], QueueTimer exampleEnv,
        Toggle exampleEnv True] initialBot) = Some jobA
   \<and> youtubeQueue (cancelCommand exampleConfig 1 (run exampleConfig
       [Toggle exampleEnv True, Youtube [jobA, jobB], QueueTimer exampleEnv,
        Toggle exampleEnv True] initialBot)) = [jobB]
   \<and> aborted (cancelCommand exampleConfig 1 (run exampleConfig
       [Toggle exampleEnv True, Youtube [jobA, jobB], QueueTimer exampleEnv,
        Toggle exampleEnv True] initialBot)) = {}
   \<and> youtubeQueue (cancelAllCommand exampleConfig True (run exampleConfig
       [Toggle exampleEnv True, Youtube [jobA, jobB], QueueTimer exampleEnv,
        Toggle exampleEnv True] initialBot)) = [jobB]
   \<and> aborted (cancelAllCommand exampleConfig True (run exampleConfig
       [Toggle exampleEnv True, Youtube [jobA, jobB], QueueTimer exampleEnv,
        Toggle exampleEnv True] initialBot)) = {}"
proof -
  let ?s = "run exampleConfig
       [Toggle exampleEnv True, Youtube [jobA, jobB], QueueTimer exampleEnv,
        Toggle exampleEnv True] initialBot"
  have h: "\<not> isCustomModeActive ?s \<and> currentDownloadJob ?s = Some jobA
      \<and> youtubeQueue ?s = [jobB] \<and> aborted ?s = {}"
    by (simp add: unfold_handlers unfold_examples)
  show ?thesis
    using h cancel_refused_in_scheduled_mode [of ?s exampleConfig 1]
    by simp
qed

subsection \<open>Traces\<close>

lemma executions_append [simp]: "executions (xs @ ys) = executions xs @ executions ys"
  by (induction xs rule: executions.induct) simp_all

lemma messages_append [simp]: "messages (xs @ ys) = messages xs @ messages ys"
  by (induction xs rule: messages.induct) simp_all

lemma discordCalls_append [simp]: "discordCalls (xs @ ys) = discordCalls xs @ discordCalls ys"
  by (induction xs rule: discordCalls.induct) simp_all

lemma executions_Discord [simp]: "executions (map Discord cs) = []"
  by (induction cs) simp_all

lemma messages_Discord [simp]: "messages (map Discord cs) = []"
  by (induction cs) simp_all

lemma eventOnly_fields:
  assumes "eventOnly s s'"
  shows "isCustomModeActive s' = isCustomModeActive s"
    and "consecutiveSkipVotes s' = consecutiveSkipVotes s"
    and "customModeTimerId s' = customModeTimerId s"
    and "vlcTitleCheckIntervalId s' = vlcTitleCheckIntervalId s"
    and "stillWatchingPromptMessage s' = stillWatchingPromptMessage s"
    and "skipVoteCooldownEndTimestamp s' = skipVoteCooldownEndTimestamp s"
    and "executions (trace s') = executions (trace s)"
    and "messages (trace s') = messages (trace s)"
  using assms by (auto simp: eventOnly_def modeView_def)

lemmas update_fields [simp] = eventOnly_fields [OF eventOnly_update [OF eventOnly_refl]]

subsection \<open>Scripts\<close>

lemma runAhkScript_succeeds:
  assumes "scriptSucceeds e p"
  shows "\<exists>a. p = Some a \<and> runAhkScript e p s = (Inr (), emit (Exec (pathResolve e a)) s)"
  using assms by (cases p) (simp_all add: scriptSucceeds_def runAhkScript_def Let_def)

lemma runAhkScript_fails:
  assumes "\<not> scriptSucceeds e p"
  shows "\<exists>err xs. runAhkScript e p s = (Inl err, s\<lparr>trace := trace s @ xs\<rparr>) \<and> messages xs = []"
proof (cases p)
  case None
  then have "runAhkScript e p s = (Inl PathNotConfigured, s\<lparr>trace := trace s @ []\<rparr>)"
    by (simp add: runAhkScript_def)
  then show ?thesis by (metis messages.simps(1))
next
  case (Some a)
  show ?thesis
  proof (cases "a \<noteq> [] \<and> existsSync e a \<and> existsSync e (pathResolve e a)")
    case True
    then have "runAhkScript e p s = (Inl ExecFailed, s\<lparr>trace := trace s @ [Exec (pathResolve e a)]\<rparr>)"
      using assms Some by (simp add: scriptSucceeds_def runAhkScript_def Let_def emit_def)
    moreover have "messages [Exec (pathResolve e a)] = []" by simp
    ultimately show ?thesis by blast
  next
    case False
    then have "\<exists>err. runAhkScript e p s = (Inl err, s\<lparr>trace := trace s @ []\<rparr>)"
      using Some by (auto simp: runAhkScript_def Let_def)
    then show ?thesis by (metis messages.simps(1))
  qed
qed

subsection \<open>Vote-driven transitions\<close>

lemma customPollEnd_script_fails:
  assumes pass: "pollPassed v" and fail: "\<not> scriptSucceeds e (customAhkPathTo cfg)"
  shows "modeView (customPollEnd cfg e v s) = modeView s
       \<and> MsgCustomScriptFailed \<in> set (messages (trace (customPollEnd cfg e v s)))"
proof (cases "sendOk e MsgExecutingSwitch")
  case False
  then show ?thesis
    using pass by (simp add: customPollEnd_def customPollFailure_def Let_def send_def emit_def
                       modeView_def)
next
  case True
  let ?s = "send MsgExecutingSwitch (send MsgPollPassed s)"
  obtain err xs where r: "runAhkScript e (customAhkPathTo cfg) ?s = (Inl err, ?s\<lparr>trace := trace ?s @ xs\<rparr>)"
    using runAhkScript_fails [OF fail] by blast
  show ?thesis
    using pass True r
    by (simp add: customPollEnd_def customPollFailure_def Let_def send_def emit_def modeView_def)
qed

lemma endCustomMode_script_fails:
  assumes custom: "isCustomModeActive s" and fail: "\<not> scriptSucceeds e (customAhkPathBack cfg)"
  shows "fst (endCustomMode cfg e ctx s) = False
       \<and> isCustomModeActive (snd (endCustomMode cfg e ctx s))
       \<and> consecutiveSkipVotes (snd (endCustomMode cfg e ctx s)) = consecutiveSkipVotes s
       \<and> MsgSwitchBackFailed \<in> set (messages (trace (snd (endCustomMode cfg e ctx s))))"
proof (cases "ctx \<noteq> ViaInteraction \<and> \<not> sendOk e MsgSwitchingBack")
  case True
  then show ?thesis
    using custom
    by (simp add: endCustomMode_def Let_def send_def emit_def stopVlcTitleCheckInterval_def)
next
  case False
  let ?s = "send MsgSwitchingBack
              ((stopVlcTitleCheckInterval (s\<lparr>customModeTimerId := False\<rparr>))
                 \<lparr>stillWatchingPromptMessage := False\<rparr>)"
  obtain err xs where r: "runAhkScript e (customAhkPathBack cfg) ?s = (Inl err, ?s\<lparr>trace := trace ?s @ xs\<rparr>)"
    using runAhkScript_fails [OF fail] by blast
  have nc: "(ctx \<noteq> ViaInteraction \<and> \<not> sendOk e MsgSwitchingBack) = False"
    using False by simp
  have "endCustomMode cfg e ctx s = (False, send MsgSwitchBackFailed (?s\<lparr>trace := trace ?s @ xs\<rparr>))"
    unfolding endCustomMode_def Let_def
    using custom r
    by (simp add: nc stopVlcTitleCheckInterval_def)
  then show ?thesis
    using custom by (simp add: send_def emit_def stopVlcTitleCheckInterval_def)
qed

text \<open>
  Claim C3. When the poll started by \<^verbatim>\<open>!custom\<close> has passed and the script that
  enters Custom mode fails (its path is not set, the file is missing or the process
  exits with an error), the mode flag and the rest of the orchestrator's variables
  are left as they were and the channel is told that the script failed. When the
  script that leaves Custom mode fails, \<^verbatim>\<open>endCustomMode\<close> returns false, Custom mode
  stays on, the skip streak is kept and the failure is reported.
\<close>

theorem vote_driven_script_failure_keeps_mode:
  "(pollPassed v \<and> \<not> scriptSucceeds e (customAhkPathTo cfg) \<longrightarrow>
      isCustomModeActive (customPollEnd cfg e v s) = isCustomModeActive s
      \<and> modeView (customPollEnd cfg e v s) = modeView s
      \<and> MsgCustomScriptFailed \<in> set (messages (trace (customPollEnd cfg e v s))))
   \<and> (isCustomModeActive s \<and> \<not> scriptSucceeds e (customAhkPathBack cfg) \<longrightarrow>
      fst (endCustomMode cfg e ctx s) = False
      \<and> isCustomModeActive (snd (endCustomMode cfg e ctx s))
      \<and> consecutiveSkipVotes (snd (endCustomMode cfg e ctx s)) = consecutiveSkipVotes s
      \<and> MsgSwitchBackFailed \<in> set (messages (trace (snd (endCustomMode cfg e ctx s)))))"
proof -
  have "modeView a = modeView b \<Longrightarrow> isCustomModeActive a = isCustomModeActive b" for a b
    by (simp add: modeView_def)
  then show ?thesis
    using customPollEnd_script_fails [of v e cfg s] endCustomMode_script_fails [of s e cfg ctx]
    by blast
qed

theorem vote_driven_script_failure_keeps_mode_witness:
  "pollPassed passingVote \<and> \<not> scriptSucceeds failingScriptsEnv (customAhkPathTo exampleConfig)
   \<and> \<not> isCustomModeActive (customPollEnd exampleConfig failingScriptsEnv passingVote initialBot)
   \<and> messages (trace (customPollEnd exampleConfig failingScriptsEnv passingVote initialBot))
       = [MsgPollPassed, MsgExecutingSwitch, MsgCustomScriptFailed]
   \<and> isCustomModeActive customBot
   \<and> \<not> scriptSucceeds failingScriptsEnv (customAhkPathBack exampleConfig)
   \<and> isCustomModeActive (snd (endCustomMode exampleConfig failingScriptsEnv ViaMessage customBot))
   \<and> messages (trace (snd (endCustomMode exampleConfig failingScriptsEnv ViaMessage customBot)))
       = [MsgSwitchingBack, MsgSwitchBackFailed]"
proof -
  have h: "pollPassed passingVote \<and> \<not> scriptSucceeds failingScriptsEnv (customAhkPathTo exampleConfig)
      \<and> isCustomModeActive customBot
      \<and> \<not> scriptSucceeds failingScriptsEnv (customAhkPathBack exampleConfig)
      \<and> \<not> isCustomModeActive initialBot"
    by (simp add: pollPassed_def passingVote_def scriptSucceeds_def failingScriptsEnv_def
          exampleEnv_def exampleConfig_def customBot_def initialBot_def)
  have m: "messages (trace (customPollEnd exampleConfig failingScriptsEnv passingVote initialBot))
       = [MsgPollPassed, MsgExecutingSwitch, MsgCustomScriptFailed]
     \<and> messages (trace (snd (endCustomMode exampleConfig failingScriptsEnv ViaMessage customBot)))
       = [MsgSwitchingBack, MsgSwitchBackFailed]"
    by (simp add: customPollEnd_def customPollFailure_def endCustomMode_def runAhkScript_def
          pollPassed_def passingVote_def failingScriptsEnv_def exampleEnv_def exampleConfig_def
          customBot_def initialBot_def exampleEvent_def stopVlcTitleCheckInterval_def
          send_def emit_def Let_def)
  show ?thesis
    using h m
      vote_driven_script_failure_keeps_mode
        [of passingVote failingScriptsEnv exampleConfig initialBot ViaMessage]
      vote_driven_script_failure_keeps_mode
        [of passingVote failingScriptsEnv exampleConfig customBot ViaMessage]
    by simp
qed

subsection \<open>Forced transitions\<close>





subsection \<open>Skip votes\<close>

lemma skipCommand_accepted:
  assumes "isCustomModeActive s" "skipVoteCooldownEndTimestamp s \<le> now e"
    "skipCustomAhkPath cfg = Some p" "p \<noteq> []" "existsSync e p" "targetVoiceChannel cfg \<noteq> None"
    "channelFetch e = GuildVoice members"
  shows "skipCommand cfg e s =
           (if length (humanMembers members) = 2 then skipBypass cfg e (emit (Discord FetchChannel) s)
            else startSkipPoll e (emit (Discord FetchChannel) s))"
proof -
  obtain c where c: "targetVoiceChannel cfg = Some c" using assms by auto
  show ?thesis
    using assms(1-5,7) c by (simp add: skipCommand_def Let_def truthy_def)
qed

lemma skipBypass_runs_script:
  assumes "skipCustomAhkPath cfg = Some p" "p \<noteq> []" "existsSync e p"
    "existsSync e (pathResolve e p)"
  shows "fst (skipBypass cfg e s) = SkipBypassed (execOk e (pathResolve e p))"
    and "executions (trace (snd (skipBypass cfg e s))) = executions (trace s) @ [pathResolve e p]"
    and "messages (trace (snd (skipBypass cfg e s))) = messages (trace s) @
           [MsgBypassing, if execOk e (pathResolve e p) then MsgBypassDone else MsgBypassFailed]"
    and "consecutiveSkipVotes (snd (skipBypass cfg e s)) =
           (if execOk e (pathResolve e p) then consecutiveSkipVotes s + 1 else consecutiveSkipVotes s)"
  using assms
  by (simp_all add: skipBypass_def runAhkScript_def Let_def send_def emit_def)

lemma startSkipPoll_result:
  shows "fst (startSkipPoll e s) =
           (if sendOk e (MsgSkipPoll (skipPollDuration (consecutiveSkipVotes s)))
            then SkipPollStarted (skipPollDuration (consecutiveSkipVotes s)) else SkipPollNotSent)"
    and "executions (trace (snd (startSkipPoll e s))) = executions (trace s)"
    and "messages (trace (snd (startSkipPoll e s))) = messages (trace s) @
           [MsgSkipPoll (skipPollDuration (consecutiveSkipVotes s))]"
    and "consecutiveSkipVotes (snd (startSkipPoll e s)) = consecutiveSkipVotes s"
  by (simp_all add: startSkipPoll_def Let_def send_def emit_def)

text \<open>
  Claim C5. A \<^verbatim>\<open>!skip\<close> that passes the checks made before the members are counted
  (Custom mode is on, the cooldown has elapsed, the skip script is configured and its
  file exists, the voice channel is configured and is fetched as a voice channel): with
  exactly two members that are not bots the skip script is executed at once, without a
  poll, and the outcome is that of the script; with any other number of such members
  no script is executed and the poll message is sent, the poll being started if the
  message can be delivered.
\<close>

theorem skip_bypass_iff_exactly_two_humans:
  assumes "isCustomModeActive s" and "skipVoteCooldownEndTimestamp s \<le> now e"
    and "skipCustomAhkPath cfg = Some p" and "p \<noteq> []" and "existsSync e p"
    and "existsSync e (pathResolve e p)"
    and "targetVoiceChannel cfg \<noteq> None" and "channelFetch e = GuildVoice members"
  shows "(length (humanMembers members) = 2 \<longrightarrow>
            fst (skipCommand cfg e s) = SkipBypassed (execOk e (pathResolve e p))
            \<and> executions (trace (snd (skipCommand cfg e s))) = executions (trace s) @ [pathResolve e p]
            \<and> messages (trace (snd (skipCommand cfg e s))) = messages (trace s) @
                 [MsgBypassing, if execOk e (pathResolve e p) then MsgBypassDone else MsgBypassFailed])
       \<and> (length (humanMembers members) \<noteq> 2 \<longrightarrow>
            fst (skipCommand cfg e s) =
              (if sendOk e (MsgSkipPoll (skipPollDuration (consecutiveSkipVotes s)))
               then SkipPollStarted (skipPollDuration (consecutiveSkipVotes s)) else SkipPollNotSent)
            \<and> executions (trace (snd (skipCommand cfg e s))) = executions (trace s)
            \<and> messages (trace (snd (skipCommand cfg e s))) = messages (trace s) @
                 [MsgSkipPoll (skipPollDuration (consecutiveSkipVotes s))])"
proof -
  have "skipCommand cfg e s =
           (if length (humanMembers members) = 2 then skipBypass cfg e (emit (Discord FetchChannel) s)
            else startSkipPoll e (emit (Discord FetchChannel) s))"
    by (rule skipCommand_accepted) (use assms in simp_all)
  then show ?thesis
    using skipBypass_runs_script [of cfg p e "emit (Discord FetchChannel) s"]
      startSkipPoll_result [of e "emit (Discord FetchChannel) s"] assms
    by (simp add: emit_def)
qed

lemmas unfold_skip =
  skipCommand_def skipBypass_def startSkipPoll_def skipPollEnd_def skipPollFailure_def
  skipPollDuration_def humanMembers_def runAhkScript_def scriptSucceeds_def pollPassed_def
  MIN_SKIP_POLL_DURATION_MS_def SKIP_POLL_TIMEOUT_MS_def SKIP_POLL_DECREMENT_MS_def
  SKIP_VOTE_COOLDOWN_MS_def threeHumansEnv_def failingScriptsEnv_def passingVote_def
  laterEnv_def afterFirstSkipVote_def

theorem skip_bypass_iff_exactly_two_humans_witness:
  "isCustomModeActive customBot \<and> skipVoteCooldownEndTimestamp customBot \<le> now exampleEnv
   \<and> skipCustomAhkPath exampleConfig = Some ''skip.ahk''
   \<and> existsSync exampleEnv ''skip.ahk''
   \<and> existsSync exampleEnv (pathResolve exampleEnv ''skip.ahk'')
   \<and> targetVoiceChannel exampleConfig \<noteq> None
   \<and> channelFetch exampleEnv = GuildVoice [\<lparr>member_id = 1, is_bot = False\<rparr>,
                                           \<lparr>member_id = 2, is_bot = False\<rparr>,
                                           \<lparr>member_id = 3, is_bot = True\<rparr>]
   \<and> fst (skipCommand exampleConfig exampleEnv customBot) = SkipBypassed True
   \<and> executions (trace (snd (skipCommand exampleConfig exampleEnv customBot))) = [''skip.ahk'']
   \<and> channelFetch threeHumansEnv = GuildVoice [\<lparr>member_id = 1, is_bot = False\<rparr>,
                                              \<lparr>member_id = 2, is_bot = False\<rparr>,
                                              \<lparr>member_id = 4, is_bot = False\<rparr>,
                                              \<lparr>member_id = 3, is_bot = True\<rparr>]
   \<and> fst (skipCommand exampleConfig threeHumansEnv customBot) = SkipPollStarted 30000
   \<and> executions (trace (snd (skipCommand exampleConfig threeHumansEnv customBot))) = []"
proof -
  have h: "isCustomModeActive customBot \<and> skipVoteCooldownEndTimestamp customBot \<le> now exampleEnv
      \<and> skipVoteCooldownEndTimestamp customBot \<le> now threeHumansEnv
      \<and> skipCustomAhkPath exampleConfig = Some ''skip.ahk''
      \<and> existsSync exampleEnv ''skip.ahk''
      \<and> existsSync exampleEnv (pathResolve exampleEnv ''skip.ahk'')
      \<and> existsSync threeHumansEnv ''skip.ahk''
      \<and> existsSync threeHumansEnv (pathResolve threeHumansEnv ''skip.ahk'')
      \<and> pathResolve exampleEnv ''skip.ahk'' = ''skip.ahk''
      \<and> execOk exampleEnv ''skip.ahk''
      \<and> sendOk threeHumansEnv (MsgSkipPoll 30000)
      \<and> targetVoiceChannel exampleConfig \<noteq> None
      \<and> channelFetch exampleEnv = GuildVoice [\<lparr>member_id = 1, is_bot = False\<rparr>,
                                           \<lparr>member_id = 2, is_bot = False\<rparr>,
                                           \<lparr>member_id = 3, is_bot = True\<rparr>]
      \<and> channelFetch threeHumansEnv = GuildVoice [\<lparr>member_id = 1, is_bot = False\<rparr>,
                                              \<lparr>member_id = 2, is_bot = False\<rparr>,
                                              \<lparr>member_id = 4, is_bot = False\<rparr>,
                                              \<lparr>member_id = 3, is_bot = True\<rparr>]
      \<and> trace customBot = [] \<and> consecutiveSkipVotes customBot = 0
      \<and> skipPollDuration 0 = 30000"
    by (simp add: unfold_examples unfold_skip)
  show ?thesis
    using h
      skip_bypass_iff_exactly_two_humans [of customBot exampleEnv exampleConfig "''skip.ahk''"
        "[\<lparr>member_id = 1, is_bot = False\<rparr>, \<lparr>member_id = 2, is_bot = False\<rparr>,
          \<lparr>member_id = 3, is_bot = True\<rparr>]"]
      skip_bypass_iff_exactly_two_humans [of customBot threeHumansEnv exampleConfig "''skip.ahk''"
        "[\<lparr>member_id = 1, is_bot = False\<rparr>, \<lparr>member_id = 2, is_bot = False\<rparr>,
          \<lparr>member_id = 4, is_bot = False\<rparr>, \<lparr>member_id = 3, is_bot = True\<rparr>]"]
    by (simp add: humanMembers_def)
qed

lemma skipPollDuration_value:
  "skipPollDuration n = max 5000 (30000 - 5000 * int n)"
  by (simp add: skipPollDuration_def MIN_SKIP_POLL_DURATION_MS_def SKIP_POLL_TIMEOUT_MS_def
        SKIP_POLL_DECREMENT_MS_def)

lemma skipPollEnd_passed_ok:
  assumes "pollPassed v" "scriptSucceeds e (skipCustomAhkPath cfg)"
    "sendOk e MsgExecutingSkip" "sendOk e MsgSkipDone"
  shows "consecutiveSkipVotes (skipPollEnd cfg e v s) = consecutiveSkipVotes s + 1"
proof -
  let ?s = "send MsgExecutingSkip (send MsgSkipPassed
              (s\<lparr>consecutiveSkipVotes := consecutiveSkipVotes s + 1\<rparr>))"
  obtain a where "runAhkScript e (skipCustomAhkPath cfg) ?s = (Inr (), emit (Exec (pathResolve e a)) ?s)"
    using runAhkScript_succeeds [OF assms(2)] by blast
  then show ?thesis
    using assms(1,3,4) by (simp add: skipPollEnd_def Let_def send_def emit_def)
qed

lemma skipPollEnd_passed_script_fails:
  assumes "pollPassed v" "\<not> scriptSucceeds e (skipCustomAhkPath cfg)"
  shows "consecutiveSkipVotes (skipPollEnd cfg e v s) = 0
       \<and> MsgSkipScriptFailed \<in> set (messages (trace (skipPollEnd cfg e v s)))"
proof (cases "sendOk e MsgExecutingSkip")
  case False
  then show ?thesis
    using assms(1) by (simp add: skipPollEnd_def skipPollFailure_def Let_def send_def emit_def)
next
  case True
  let ?s = "send MsgExecutingSkip (send MsgSkipPassed
              (s\<lparr>consecutiveSkipVotes := consecutiveSkipVotes s + 1\<rparr>))"
  obtain err xs where "runAhkScript e (skipCustomAhkPath cfg) ?s = (Inl err, ?s\<lparr>trace := trace ?s @ xs\<rparr>)"
    using runAhkScript_fails [OF assms(2)] by blast
  then show ?thesis
    using assms(1) True
    by (simp add: skipPollEnd_def skipPollFailure_def Let_def send_def emit_def)
qed

text \<open>
  Claim C6, as amended. A skip poll lasts \<open>max floor (base - streak * decrement)\<close>
  milliseconds, with base 30000, decrement 5000 and floor 5000, where the streak is
  the value of \<^verbatim>\<open>consecutiveSkipVotes\<close> when the poll starts: the duration never grows
  with the streak and never goes below the floor. A poll that passes and whose script
  succeeds adds one to the streak, so from a streak of zero the first poll lasts 30000,
  the second 25000, and the poll started after two consecutive passes lasts
  \<open>max floor (base - 2 * decrement)\<close>, which is 20000. A failure of the skip script after
  a passed poll resets the streak to zero and is reported.
\<close>

theorem skip_poll_duration_follows_streak:
  "skipPollDuration n = max 5000 (30000 - 5000 * int n)
   \<and> MIN_SKIP_POLL_DURATION_MS = 5000 \<and> SKIP_POLL_TIMEOUT_MS = 30000
   \<and> SKIP_POLL_DECREMENT_MS = 5000
   \<and> (n \<le> m \<longrightarrow> skipPollDuration m \<le> skipPollDuration n)
   \<and> MIN_SKIP_POLL_DURATION_MS \<le> skipPollDuration n
   \<and> (sendOk e (MsgSkipPoll (skipPollDuration (consecutiveSkipVotes s))) \<longrightarrow>
        fst (startSkipPoll e s) = SkipPollStarted (skipPollDuration (consecutiveSkipVotes s)))
   \<and> (pollPassed v \<and> scriptSucceeds e (skipCustomAhkPath cfg)
        \<and> sendOk e MsgExecutingSkip \<and> sendOk e MsgSkipDone \<longrightarrow>
        consecutiveSkipVotes (skipPollEnd cfg e v s) = consecutiveSkipVotes s + 1)
   \<and> (consecutiveSkipVotes s = 0
        \<and> pollPassed v \<and> scriptSucceeds e (skipCustomAhkPath cfg)
        \<and> sendOk e MsgExecutingSkip \<and> sendOk e MsgSkipDone
        \<and> pollPassed v' \<and> scriptSucceeds e' (skipCustomAhkPath cfg)
        \<and> sendOk e' MsgExecutingSkip \<and> sendOk e' MsgSkipDone \<longrightarrow>
        skipPollDuration (consecutiveSkipVotes s) = 30000
        \<and> skipPollDuration (consecutiveSkipVotes (skipPollEnd cfg e v s)) = 25000
        \<and> skipPollDuration (consecutiveSkipVotes
             (skipPollEnd cfg e' v' (skipPollEnd cfg e v s)))
           = max MIN_SKIP_POLL_DURATION_MS (SKIP_POLL_TIMEOUT_MS - 2 * SKIP_POLL_DECREMENT_MS)
        \<and> skipPollDuration (consecutiveSkipVotes
             (skipPollEnd cfg e' v' (skipPollEnd cfg e v s))) = 20000)
   \<and> (pollPassed v \<and> \<not> scriptSucceeds e (skipCustomAhkPath cfg) \<longrightarrow>
        consecutiveSkipVotes (skipPollEnd cfg e v s) = 0
        \<and> MsgSkipScriptFailed \<in> set (messages (trace (skipPollEnd cfg e v s))))"
proof -
  have mono: "n \<le> m \<longrightarrow> skipPollDuration m \<le> skipPollDuration n"
    by (auto simp: skipPollDuration_value)
  have two: "consecutiveSkipVotes s = 0
        \<and> pollPassed v \<and> scriptSucceeds e (skipCustomAhkPath cfg)
        \<and> sendOk e MsgExecutingSkip \<and> sendOk e MsgSkipDone
        \<and> pollPassed v' \<and> scriptSucceeds e' (skipCustomAhkPath cfg)
        \<and> sendOk e' MsgExecutingSkip \<and> sendOk e' MsgSkipDone \<longrightarrow>
        skipPollDuration (consecutiveSkipVotes s) = 30000
        \<and> skipPollDuration (consecutiveSkipVotes (skipPollEnd cfg e v s)) = 25000
        \<and> skipPollDuration (consecutiveSkipVotes
             (skipPollEnd cfg e' v' (skipPollEnd cfg e v s)))
           = max MIN_SKIP_POLL_DURATION_MS (SKIP_POLL_TIMEOUT_MS - 2 * SKIP_POLL_DECREMENT_MS)
        \<and> skipPollDuration (consecutiveSkipVotes
             (skipPollEnd cfg e' v' (skipPollEnd cfg e v s))) = 20000"
  proof (intro impI, elim conjE)
    assume a: "consecutiveSkipVotes s = 0" "pollPassed v" "scriptSucceeds e (skipCustomAhkPath cfg)"
      "sendOk e MsgExecutingSkip" "sendOk e MsgSkipDone"
      "pollPassed v'" "scriptSucceeds e' (skipCustomAhkPath cfg)"
      "sendOk e' MsgExecutingSkip" "sendOk e' MsgSkipDone"
    have one: "consecutiveSkipVotes (skipPollEnd cfg e v s) = 1"
      using skipPollEnd_passed_ok [OF a(2-5), of s] a(1) by simp
    have "consecutiveSkipVotes (skipPollEnd cfg e' v' (skipPollEnd cfg e v s)) = 2"
      using skipPollEnd_passed_ok [OF a(6-9), of "skipPollEnd cfg e v s"] one by simp
    with one a(1) show "skipPollDuration (consecutiveSkipVotes s) = 30000
        \<and> skipPollDuration (consecutiveSkipVotes (skipPollEnd cfg e v s)) = 25000
        \<and> skipPollDuration (consecutiveSkipVotes
             (skipPollEnd cfg e' v' (skipPollEnd cfg e v s)))
           = max MIN_SKIP_POLL_DURATION_MS (SKIP_POLL_TIMEOUT_MS - 2 * SKIP_POLL_DECREMENT_MS)
        \<and> skipPollDuration (consecutiveSkipVotes
             (skipPollEnd cfg e' v' (skipPollEnd cfg e v s))) = 20000"
      by (simp add: skipPollDuration_value MIN_SKIP_POLL_DURATION_MS_def
            SKIP_POLL_TIMEOUT_MS_def SKIP_POLL_DECREMENT_MS_def)
  qed
  show ?thesis
    using mono two skipPollEnd_passed_ok [of v e cfg s]
      skipPollEnd_passed_script_fails [of v e cfg s]
    by (simp add: skipPollDuration_value MIN_SKIP_POLL_DURATION_MS_def
          SKIP_POLL_TIMEOUT_MS_def SKIP_POLL_DECREMENT_MS_def startSkipPoll_result)
qed

theorem skip_poll_duration_follows_streak_witness:
  "consecutiveSkipVotes customBot = 0 \<and> pollPassed passingVote
   \<and> scriptSucceeds exampleEnv (skipCustomAhkPath exampleConfig)
   \<and> \<not> scriptSucceeds failingScriptsEnv (skipCustomAhkPath exampleConfig)
   \<and> sendOk exampleEnv MsgExecutingSkip \<and> sendOk exampleEnv MsgSkipDone
   \<and> skipPollDuration 7 \<le> skipPollDuration 3
   \<and> skipPollDuration (consecutiveSkipVotes
        (skipPollEnd exampleConfig exampleEnv passingVote customBot)) = 25000
   \<and> skipPollDuration (consecutiveSkipVotes
        (skipPollEnd exampleConfig exampleEnv passingVote
          (skipPollEnd exampleConfig exampleEnv passingVote customBot))) = 20000
   \<and> consecutiveSkipVotes
        (skipPollEnd exampleConfig failingScriptsEnv passingVote
          (skipPollEnd exampleConfig exampleEnv passingVote customBot)) = 0"
proof -
  have h: "consecutiveSkipVotes customBot = 0 \<and> pollPassed passingVote
      \<and> scriptSucceeds exampleEnv (skipCustomAhkPath exampleConfig)
      \<and> \<not> scriptSucceeds failingScriptsEnv (skipCustomAhkPath exampleConfig)
      \<and> sendOk exampleEnv MsgExecutingSkip \<and> sendOk exampleEnv MsgSkipDone"
    by (simp add: unfold_examples unfold_skip)
  show ?thesis
    using h
      skip_poll_duration_follows_streak [of 3 7 exampleEnv customBot passingVote exampleConfig
        passingVote exampleEnv]
      skip_poll_duration_follows_streak [of 3 7 failingScriptsEnv
        "skipPollEnd exampleConfig exampleEnv passingVote customBot" passingVote exampleConfig
        passingVote exampleEnv]
    by (simp add: skipPollDuration_value)
qed

text \<open>
  The claim as stated fails twice. With a streak of zero and three humans in the
  voice channel the first poll lasts 30000 ms and passes; the second poll, started
  after the cooldown, lasts 25000 ms, not \<open>max floor (base - 2 * decrement)\<close>, and passes
  too. And when exactly two humans are present and the skip script fails, the bypass
  leaves a streak of three at three.
\<close>

theorem second_skip_vote_duration_counterexample:
  "fst (skipCommand exampleConfig threeHumansEnv customBot) = SkipPollStarted 30000
   \<and> pollPassed passingVote
   \<and> fst (skipCommand exampleConfig laterEnv afterFirstSkipVote) = SkipPollStarted 25000
   \<and> consecutiveSkipVotes
        (skipPollEnd exampleConfig laterEnv passingVote
          (snd (skipCommand exampleConfig laterEnv afterFirstSkipVote))) = 2
   \<and> (25000 :: int) \<noteq> max MIN_SKIP_POLL_DURATION_MS
                            (SKIP_POLL_TIMEOUT_MS - 2 * SKIP_POLL_DECREMENT_MS)
   \<and> fst (skipCommand exampleConfig failingScriptsEnv (customBot\<lparr>consecutiveSkipVotes := 3\<rparr>))
       = SkipBypassed False
   \<and> executions (trace (snd (skipCommand exampleConfig failingScriptsEnv
        (customBot\<lparr>consecutiveSkipVotes := 3\<rparr>)))) = [''skip.ahk'']
   \<and> consecutiveSkipVotes (snd (skipCommand exampleConfig failingScriptsEnv
        (customBot\<lparr>consecutiveSkipVotes := 3\<rparr>))) = 3"
  by (simp add: unfold_examples unfold_skip send_def emit_def Let_def truthy_def)

subsection \<open>Renaming the managed event\<close>

lemma discordCalls_emit [simp]:
  "discordCalls (trace (emit (Discord c) s)) = discordCalls (trace s) @ [c]"
  "discordCalls (trace (emit Tasklist s)) = discordCalls (trace s)"
  by (simp_all add: emit_def)

lemma updateEventNameInternal_same_name:
  assumes tvc: "targetVoiceChannel cfg \<noteq> None"
    and ev: "managedGuildEvent s = Some ev" and nt: "\<not> terminal (ev_status ev)"
    and nm: "finalEventName (isCustomModeActive s) ev newName = Some (ev_name ev)"
  shows "updateEventNameInternal cfg e newName s = activateIfDue e ev s"
proof -
  obtain c where c: "targetVoiceChannel cfg = Some c" using tvc by auto
  show ?thesis
    using c ev nt nm
    by (simp add: updateEventNameInternal_def needsReacquire_def applyEventName_def
          editIfDifferent_def Let_def)
qed

lemma activateIfDue_calls:
  "discordCalls (trace (snd (activateIfDue e ev s))) =
     discordCalls (trace s) @
       (if ev_status ev = Scheduled \<and> scheduledStartTimestamp ev < now e
        then SetStatusActive (ev_id ev) #
               (case setStatusActive e ev of
                  Inl err \<Rightarrow> [] | Inr started \<Rightarrow> [RefetchEvent (ev_id started)])
        else [])"
  by (simp add: activateIfDue_def apiFailed_def Let_def split: sum.split)

lemma activateIfDue_not_due:
  "\<not> (ev_status ev = Scheduled \<and> scheduledStartTimestamp ev < now e) \<Longrightarrow>
   activateIfDue e ev s = (True, s)"
  by (auto simp: activateIfDue_def)

lemma checkAndUpdateVlcEventTitle_same_name:
  assumes "managedGuildEvent s = Some ev" "ev_name ev = vlcPotentialName e"
  shows "checkAndUpdateVlcEventTitle cfg e s =
           (if isCustomModeActive s \<and> targetVoiceChannel cfg \<noteq> None then emit Tasklist s else s)"
  using assms by (simp add: checkAndUpdateVlcEventTitle_def Let_def)

text \<open>
  Claim C9, as amended. When the voice channel is configured, the cached event is
  neither completed nor cancelled, and the final name computed from the requested
  name (prefix of Custom mode added, trimmed, cut to 100 characters) equals the cached
  name, \<^verbatim>\<open>updateEventNameInternal\<close> neither refetches nor edits the event: the only
  Discord calls it can still make are the activation of an event that is still
  scheduled although its start time has passed, and the refetch that follows it. For
  any other event it returns true and leaves the state and the trace as they were.
  Likewise the title check of Custom mode returns before any Discord call when the
  name built from the player's title equals the cached name.
\<close>

theorem rename_skipped_when_name_unchanged:
  assumes "targetVoiceChannel cfg \<noteq> None"
    and "managedGuildEvent s = Some ev" and "\<not> terminal (ev_status ev)"
    and "finalEventName (isCustomModeActive s) ev newName = Some (ev_name ev)"
  shows "discordCalls (trace (snd (updateEventNameInternal cfg e newName s))) =
           discordCalls (trace s) @
             (if ev_status ev = Scheduled \<and> scheduledStartTimestamp ev < now e
              then SetStatusActive (ev_id ev) #
                     (case setStatusActive e ev of
                        Inl err \<Rightarrow> [] | Inr started \<Rightarrow> [RefetchEvent (ev_id started)])
              else [])
       \<and> (\<not> (ev_status ev = Scheduled \<and> scheduledStartTimestamp ev < now e) \<longrightarrow>
            updateEventNameInternal cfg e newName s = (True, s))
       \<and> (ev_name ev = vlcPotentialName e \<longrightarrow>
            discordCalls (trace (checkAndUpdateVlcEventTitle cfg e s)) = discordCalls (trace s)
            \<and> managedGuildEvent (checkAndUpdateVlcEventTitle cfg e s) = Some ev)"
proof -
  have "updateEventNameInternal cfg e newName s = activateIfDue e ev s"
    by (rule updateEventNameInternal_same_name) (use assms in simp_all)
  moreover have "ev_name ev = vlcPotentialName e \<longrightarrow>
            discordCalls (trace (checkAndUpdateVlcEventTitle cfg e s)) = discordCalls (trace s)
            \<and> managedGuildEvent (checkAndUpdateVlcEventTitle cfg e s) = Some ev"
    using assms(2) by (simp add: checkAndUpdateVlcEventTitle_same_name emit_def)
  ultimately show ?thesis
    by (simp add: activateIfDue_calls activateIfDue_not_due)
qed

theorem rename_skipped_when_name_unchanged_witness:
  "targetVoiceChannel exampleConfig \<noteq> None
   \<and> managedGuildEvent customBot = Some (exampleEvent\<lparr>ev_name := ''Custom Channel''\<rparr>)
   \<and> \<not> terminal (ev_status (exampleEvent\<lparr>ev_name := ''Custom Channel''\<rparr>))
   \<and> finalEventName (isCustomModeActive customBot)
        (exampleEvent\<lparr>ev_name := ''Custom Channel''\<rparr>) ''Custom Channel''
       = Some (ev_name (exampleEvent\<lparr>ev_name := ''Custom Channel''\<rparr>))
   \<and> updateEventNameInternal exampleConfig exampleEnv ''Custom Channel'' customBot
       = (True, customBot)
   \<and> vlcPotentialName exampleEnv = ''Custom Channel''
   \<and> discordCalls (trace (checkAndUpdateVlcEventTitle exampleConfig exampleEnv customBot)) = []"
proof -
  have h: "targetVoiceChannel exampleConfig \<noteq> None
      \<and> managedGuildEvent customBot = Some (exampleEvent\<lparr>ev_name := ''Custom Channel''\<rparr>)
      \<and> \<not> terminal (ev_status (exampleEvent\<lparr>ev_name := ''Custom Channel''\<rparr>))
      \<and> finalEventName (isCustomModeActive customBot)
           (exampleEvent\<lparr>ev_name := ''Custom Channel''\<rparr>) ''Custom Channel''
          = Some (ev_name (exampleEvent\<lparr>ev_name := ''Custom Channel''\<rparr>))
      \<and> ev_status (exampleEvent\<lparr>ev_name := ''Custom Channel''\<rparr>) = Active
      \<and> vlcPotentialName exampleEnv = ''Custom Channel''
      \<and> trace customBot = []"
    by (simp add: unfold_examples terminal_def finalEventName_def js_trim_def js_space_def
          vlcPotentialName_def vlcEventTitle_def)
  show ?thesis
    using h rename_skipped_when_name_unchanged
      [of exampleConfig customBot "exampleEvent\<lparr>ev_name := ''Custom Channel''\<rparr>"
          "''Custom Channel''" exampleEnv]
    by (simp add: terminal_def)
qed

text \<open>
  The claim as stated fails: the cached event is still scheduled, its start time has
  passed, and the requested name is the cached name. The event is not renamed, but two
  Discord calls are made.
\<close>

theorem rename_no_external_call_counterexample:
  "finalEventName (isCustomModeActive (initialBot\<lparr>managedGuildEvent := Some dueEvent\<rparr>))
      dueEvent ''News'' = Some (ev_name dueEvent)
   \<and> discordCalls (trace (snd (updateEventNameInternal exampleConfig exampleEnv ''News''
        (initialBot\<lparr>managedGuildEvent := Some dueEvent\<rparr>))))
       = [SetStatusActive 5, RefetchEvent 5]"
  by (simp add: unfold_handlers unfold_examples dueEvent_def)


subsection \<open>Subfolder names\<close>

lemma underscore_ok [simp]:
  "\<not> invalid_path_char (CHR ''_'')" "\<not> js_space (CHR ''_'')" "CHR ''_'' \<noteq> CHR ''.''"
  by (simp_all add: invalid_path_char_def js_space_def)

lemma dot_not_space [simp]: "\<not> js_space (CHR ''.'')"
  by (simp add: js_space_def)

lemma no_dotdot_Cons:
  "no_dotdot (x # ys) \<longleftrightarrow>
     (case ys of [] \<Rightarrow> True | y # zs \<Rightarrow> \<not> (x = CHR ''.'' \<and> y = CHR ''.'')) \<and> no_dotdot ys"
  by (cases ys) simp_all

lemma no_dotdot_append:
  "no_dotdot (xs @ ys) \<Longrightarrow> no_dotdot xs \<and> no_dotdot ys"
proof (induction xs)
  case Nil
  then show ?case by simp
next
  case (Cons x xs)
  show ?case
  proof (cases xs)
    case Nil
    then show ?thesis using Cons.prems by (cases ys) simp_all
  next
    case (Cons d ds)
    then show ?thesis using Cons.IH Cons.prems by simp
  qed
qed

lemma no_dotdot_dropWhile: "no_dotdot xs \<Longrightarrow> no_dotdot (dropWhile P xs)"
  using no_dotdot_append [of "takeWhile P xs" "dropWhile P xs"] by simp

lemma no_dotdot_take: "no_dotdot xs \<Longrightarrow> no_dotdot (take n xs)"
  using no_dotdot_append [of "take n xs" "drop n xs"] by simp

lemma rev_dropWhile_rev_prefix:
  "rev (dropWhile P (rev xs)) @ rev (takeWhile P (rev xs)) = xs"
  by (metis rev_append rev_rev_ident takeWhile_dropWhile_id)

lemma no_dotdot_dropWhile_end: "no_dotdot xs \<Longrightarrow> no_dotdot (rev (dropWhile P (rev xs)))"
  using no_dotdot_append [of "rev (dropWhile P (rev xs))" "rev (takeWhile P (rev xs))"]
  by (simp add: rev_dropWhile_rev_prefix)

lemma set_dropWhile_end: "set (rev (dropWhile P (rev xs))) \<subseteq> set xs"
  using set_dropWhileD by fastforce


lemma replaceInvalid_chars:
  "c \<in> set (replaceInvalid b xs) \<Longrightarrow> \<not> invalid_path_char c"
  by (induction b xs rule: replaceInvalid.induct) (auto split: if_splits)

lemma replaceInvalid_head:
  assumes "replaceInvalid b xs = CHR ''.'' # ys"
  shows "\<exists>zs. xs = CHR ''.'' # zs"
proof (cases xs)
  case Nil
  then show ?thesis using assms by simp
next
  case (Cons c cs)
  show ?thesis
  proof (cases cs)
    case Nil
    then show ?thesis using assms Cons by (simp split: if_splits)
  next
    case (Cons d ds)
    have "c = CHR ''.''"
    proof (rule ccontr)
      assume n: "c \<noteq> CHR ''.''"
      have "replaceInvalid b (c # d # ds) =
              (if invalid_path_char c then CHR ''_'' # replaceInvalid False (d # ds)
               else c # replaceInvalid False (d # ds))"
        using n by (simp del: replaceInvalid.simps add: replaceInvalid.simps(3) [of b c d ds])
      then show False
        using assms n \<open>xs = c # cs\<close> Cons by (simp del: replaceInvalid.simps split: if_splits)
    qed
    then show ?thesis using \<open>xs = c # cs\<close> by simp
  qed
qed

lemma replaceInvalid_no_dotdot: "no_dotdot (replaceInvalid b xs)"
proof (induction b xs rule: replaceInvalid.induct)
  case (1 start)
  show ?case by simp
next
  case (2 start c)
  show ?case by simp
next
  case (3 start c d ds)
  have keep: "no_dotdot (c # replaceInvalid False (d # ds))"
    if "\<not> (c = CHR ''.'' \<and> d = CHR ''.'')" "no_dotdot (replaceInvalid False (d # ds))"
    using that replaceInvalid_head [of False "d # ds"]
    by (auto simp: no_dotdot_Cons split: list.splits)
  have under: "no_dotdot (CHR ''_'' # ys)" if "no_dotdot ys" for ys
    using that by (simp add: no_dotdot_Cons split: list.splits)
  show ?case
    using 3 keep under by (simp del: replaceInvalid.simps(3) add: replaceInvalid.simps(3) [of start c d ds])
qed

lemma replaceSpaces_chars:
  "c \<in> set (replaceSpaces xs) \<Longrightarrow> \<not> js_space c \<and> (c \<in> set xs \<or> c = CHR ''_'')"
proof (induction xs rule: replaceSpaces.induct)
  case 1
  then show ?case by simp
next
  case (2 x xs)
  then show ?case
    by (auto split: if_splits dest: set_dropWhileD)
qed

lemma replaceSpaces_head:
  "replaceSpaces xs = CHR ''.'' # ys \<Longrightarrow> \<exists>zs. xs = CHR ''.'' # zs"
  by (cases xs) (auto split: if_splits)

lemma replaceSpaces_no_dotdot: "no_dotdot xs \<Longrightarrow> no_dotdot (replaceSpaces xs)"
proof (induction xs rule: replaceSpaces.induct)
  case 1
  show ?case by simp
next
  case (2 c cs)
  show ?case
  proof (cases "js_space c")
    case True
    have "no_dotdot (dropWhile js_space cs)"
      using "2.prems" by (simp add: no_dotdot_Cons no_dotdot_dropWhile)
    then have "no_dotdot (replaceSpaces (dropWhile js_space cs))"
      using "2.IH"(1) True by simp
    then show ?thesis
      using True by (simp add: no_dotdot_Cons split: list.splits)
  next
    case False
    have cs: "no_dotdot cs" using "2.prems" by (simp add: no_dotdot_Cons)
    then have ih: "no_dotdot (replaceSpaces cs)" using "2.IH"(2) False by simp
    have "\<not> (c = CHR ''.'' \<and> y = CHR ''.'')" if eq: "replaceSpaces cs = y # zs" for y zs
    proof
      assume a: "c = CHR ''.'' \<and> y = CHR ''.''"
      then obtain ws where "cs = CHR ''.'' # ws" using eq replaceSpaces_head [of cs zs] by auto
      then show False using "2.prems" a by simp
    qed
    then show ?thesis
      using False ih by (simp add: no_dotdot_Cons split: list.splits)
  qed
qed

lemma sanitizeSubfolderName_Some:
  assumes "sanitizeSubfolderName basename name = Some r"
  shows "r \<noteq> [] \<and> length r \<le> 50
       \<and> (\<forall>c \<in> set r. \<not> invalid_path_char c \<and> \<not> js_space c) \<and> no_dotdot r"
proof -
  obtain n where n: "name = Some n" "n \<noteq> []"
    using assms by (cases name) (auto simp: sanitizeSubfolderName_def split: if_splits)
  define a where "a = replaceSpaces (replaceInvalid True (basename n))"
  define b where "b = js_trim (stripUnderscores a)"
  have r: "r = take 50 b" "b \<noteq> []"
    using assms n by (auto simp: sanitizeSubfolderName_def Let_def a_def b_def split: if_splits)
  have a_chars: "\<not> invalid_path_char c \<and> \<not> js_space c" if "c \<in> set a" for c
    using that replaceSpaces_chars [of c "replaceInvalid True (basename n)"]
      replaceInvalid_chars [of c True "basename n"]
    by (auto simp: a_def)
  have a_nd: "no_dotdot a"
    unfolding a_def by (rule replaceSpaces_no_dotdot) (rule replaceInvalid_no_dotdot)
  have b_sub: "set b \<subseteq> set a"
    unfolding b_def js_trim_def stripUnderscores_def
    by (meson set_dropWhileD set_dropWhile_end subsetD subsetI)
  have b_nd: "no_dotdot b"
    unfolding b_def js_trim_def stripUnderscores_def
    by (intro no_dotdot_dropWhile_end no_dotdot_dropWhile a_nd)
  have "set r \<subseteq> set a" using b_sub r(1) set_take_subset [of 50 b] by blast
  then have chars: "\<forall>c \<in> set r. \<not> invalid_path_char c \<and> \<not> js_space c"
    using a_chars by blast
  show ?thesis
    using r chars b_nd by (simp add: no_dotdot_take)
qed

lemma ordinary_char_simps [simp]:
  "\<not> ordinary_char (CHR ''_'')" "\<not> ordinary_char (CHR ''.'')"
  "invalid_path_char c \<Longrightarrow> \<not> ordinary_char c" "js_space c \<Longrightarrow> \<not> ordinary_char c"
  by (simp_all add: ordinary_char_def)

lemma not_underscore_simps [simp]:
  "\<not> not_underscore (CHR ''_'')" "not_underscore (CHR ''.'')"
  "js_space c \<Longrightarrow> not_underscore c"
  by (auto simp: not_underscore_def js_space_def)

lemma replaceInvalid_ordinary:
  "filter ordinary_char (replaceInvalid b xs) = filter ordinary_char xs"
proof (induction b xs rule: replaceInvalid.induct)
  case (1 start)
  show ?case by simp
next
  case (2 start c)
  show ?case by auto
next
  case (3 start c d ds)
  show ?case
  proof (cases "invalid_path_char c")
    case True
    then show ?thesis using "3.IH"(1) by simp
  next
    case inv: False
    show ?thesis
    proof (cases "c = CHR ''.''")
      case dot: True
      show ?thesis
      proof (cases "d = CHR ''.''")
        case True
        then show ?thesis using inv dot "3.IH"(2) by simp
      next
        case False
        then show ?thesis using inv dot "3.IH"(3,4) by (cases start) simp_all
      qed
    next
      case False
      then show ?thesis using inv "3.IH"(4) by simp
    qed
  qed
qed

lemma filter_dropWhile_none:
  "(\<And>c. P c \<Longrightarrow> \<not> Q c) \<Longrightarrow> filter Q (dropWhile P xs) = filter Q xs"
  by (induction xs) auto

lemma replaceSpaces_ordinary:
  "filter ordinary_char (replaceSpaces xs) = filter ordinary_char xs"
proof (induction xs rule: replaceSpaces.induct)
  case 1
  show ?case by simp
next
  case (2 c cs)
  show ?case
  proof (cases "js_space c")
    case True
    have "filter ordinary_char (dropWhile js_space cs) = filter ordinary_char cs"
      by (rule filter_dropWhile_none) simp
    then show ?thesis using True "2.IH"(1) by simp
  next
    case False
    then show ?thesis using "2.IH"(2) by simp
  qed
qed

lemma replaceInvalid_subseq:
  "subseq (filter not_underscore (replaceInvalid b xs)) xs"
proof (induction b xs rule: replaceInvalid.induct)
  case (1 start)
  show ?case by simp
next
  case (2 start c)
  show ?case by simp
next
  case (3 start c d ds)
  have skip: "subseq ys (c # zs)" if "subseq ys zs" for ys zs
    using that by (rule list_emb_Cons)
  have keep: "subseq (filter not_underscore (c # ys)) (c # zs)" if "subseq (filter not_underscore ys) zs" for ys zs
    using that by (cases "not_underscore c") (simp_all add: skip)
  show ?case
  proof (cases "invalid_path_char c")
    case True
    then show ?thesis using "3.IH"(1) skip by simp
  next
    case inv: False
    show ?thesis
    proof (cases "c = CHR ''.''")
      case dot: True
      show ?thesis
      proof (cases "d = CHR ''.''")
        case True
        have "subseq (filter not_underscore (replaceInvalid False ds)) (c # d # ds)"
          using inv dot True "3.IH"(2) skip by blast
        then show ?thesis using inv dot True by simp
      next
        case False
        show ?thesis
        proof (cases start)
          case True
          then show ?thesis using inv dot False "3.IH"(3) skip by simp
        next
          case nst: False
          have "subseq (filter not_underscore (c # replaceInvalid False (d # ds))) (c # d # ds)"
            using inv dot False nst "3.IH"(4) by (intro keep) simp
          then show ?thesis using inv dot False nst by (simp del: filter.simps)
        qed
      qed
    next
      case False
      have "subseq (filter not_underscore (c # replaceInvalid False (d # ds))) (c # d # ds)"
        using inv False "3.IH"(4) by (intro keep) simp
      then show ?thesis using inv False by (simp del: filter.simps)
    qed
  qed
qed

lemma subseq_dropWhile: "subseq (dropWhile P xs) xs"
  by (metis suffix_dropWhile suffix_imp_subseq)

lemma replaceSpaces_subseq:
  "subseq (filter not_underscore (replaceSpaces xs)) (filter not_underscore xs)"
proof (induction xs rule: replaceSpaces.induct)
  case 1
  show ?case by simp
next
  case (2 c cs)
  show ?case
  proof (cases "js_space c")
    case True
    have "subseq (filter not_underscore (dropWhile js_space cs)) (filter not_underscore cs)"
      using subseq_dropWhile [of js_space cs] by simp
    then have "subseq (filter not_underscore (replaceSpaces (dropWhile js_space cs)))
                 (filter not_underscore cs)"
      using "2.IH"(1) True subseq_order.trans by blast
    then show ?thesis using True by (simp add: list_emb_Cons)
  next
    case False
    then show ?thesis using "2.IH"(2) by simp
  qed
qed

lemma replaceInvalid_length: "length (replaceInvalid b xs) \<le> length xs"
proof (induction b xs rule: replaceInvalid.induct)
  case (1 start)
  show ?case by simp
next
  case (2 start c)
  show ?case by simp
next
  case (3 start c d ds)
  show ?case
  proof (cases "invalid_path_char c")
    case True
    then show ?thesis using "3.IH"(1) by simp
  next
    case inv: False
    show ?thesis
    proof (cases "c = CHR ''.'' \<and> d = CHR ''.''")
      case True
      then show ?thesis using inv "3.IH"(2) by simp
    next
      case False
      then show ?thesis using inv "3.IH"(3,4) by (cases "c = CHR ''.'' \<and> start") auto
    qed
  qed
qed

lemma replaceSpaces_length: "length (replaceSpaces xs) \<le> length xs"
proof (induction xs rule: replaceSpaces.induct)
  case 1
  show ?case by simp
next
  case (2 c cs)
  have "length (dropWhile js_space cs) \<le> length cs" by (rule length_dropWhile_le)
  then show ?case using 2 by (cases "js_space c") simp_all
qed

lemma filter_dropWhile_end_none:
  assumes "\<And>c. P c \<Longrightarrow> \<not> Q c"
  shows "filter Q (rev (dropWhile P (rev xs))) = filter Q xs"
proof -
  have "filter Q (rev (dropWhile P (rev xs))) = rev (filter Q (dropWhile P (rev xs)))"
    by (simp add: rev_filter)
  also have "\<dots> = rev (filter Q (rev xs))"
    using assms by (simp add: filter_dropWhile_none)
  also have "\<dots> = filter Q xs" by (simp add: rev_filter)
  finally show ?thesis .
qed

lemma stripUnderscores_filter:
  assumes "\<not> Q (CHR ''_'')"
  shows "filter Q (stripUnderscores xs) = filter Q xs"
proof -
  have u: "\<not> Q c" if "c = CHR ''_''" for c using that assms by simp
  have "filter Q (stripUnderscores xs) = filter Q (dropWhile (\<lambda>c. c = CHR ''_'') xs)"
    unfolding stripUnderscores_def using u by (rule filter_dropWhile_end_none)
  also have "\<dots> = filter Q xs" using u by (rule filter_dropWhile_none)
  finally show ?thesis .
qed

lemma length_dropWhile_end: "length (rev (dropWhile P (rev xs))) \<le> length xs"
  using length_dropWhile_le [of P "rev xs"] by simp

lemma stripUnderscores_length: "length (stripUnderscores xs) \<le> length xs"
  unfolding stripUnderscores_def
  using length_dropWhile_end [of "\<lambda>c. c = CHR ''_''" "dropWhile (\<lambda>c. c = CHR ''_'') xs"]
    length_dropWhile_le [of "\<lambda>c. c = CHR ''_''" xs]
  by simp

lemma last_dropWhile_nonempty: "dropWhile P xs \<noteq> [] \<Longrightarrow> last (dropWhile P xs) = last xs"
  by (induction xs) (auto split: if_splits)

lemma stripUnderscores_ends:
  assumes "stripUnderscores xs \<noteq> []"
  shows "hd (stripUnderscores xs) \<noteq> CHR ''_''" and "last (stripUnderscores xs) \<noteq> CHR ''_''"
proof -
  define u where "u = (\<lambda>c. c = CHR ''_'')"
  define ys where "ys = dropWhile u xs"
  define zs where "zs = dropWhile u (rev ys)"
  have s: "stripUnderscores xs = rev zs"
    by (simp add: stripUnderscores_def zs_def ys_def u_def)
  have zs: "zs \<noteq> []" using assms s by simp
  have ys: "ys \<noteq> []"
  proof
    assume "ys = []"
    then have "zs = []" by (simp add: zs_def)
    then show False using zs by simp
  qed
  have "\<not> u (hd zs)" using zs unfolding zs_def by (rule hd_dropWhile)
  moreover have "last (rev zs) = hd zs" using zs by (simp add: last_rev)
  ultimately show "last (stripUnderscores xs) \<noteq> CHR ''_''" by (simp add: s u_def)
  have "hd (rev zs) = last zs" using zs by (simp add: hd_rev)
  also have "\<dots> = last (rev ys)" using zs unfolding zs_def by (rule last_dropWhile_nonempty)
  also have "\<dots> = hd ys" using ys by (simp add: last_rev)
  finally have "hd (stripUnderscores xs) = hd ys" by (simp add: s)
  moreover have "\<not> u (hd ys)" using ys unfolding ys_def by (rule hd_dropWhile)
  ultimately show "hd (stripUnderscores xs) \<noteq> CHR ''_''" by (simp add: u_def)
qed

lemma dropWhile_none: "\<forall>c \<in> set s. \<not> P c \<Longrightarrow> dropWhile P s = s"
  by (cases s) simp_all

lemma js_trim_id: "\<forall>c \<in> set s. \<not> js_space c \<Longrightarrow> js_trim s = s"
  by (simp add: js_trim_def dropWhile_none)

lemma stripUnderscores_set: "set (stripUnderscores xs) \<subseteq> set xs"
  unfolding stripUnderscores_def
  by (meson set_dropWhileD set_dropWhile_end subsetD subsetI)

lemma sanitizeSubfolderName_unfold:
  assumes "n \<noteq> []"
  shows "sanitizeSubfolderName basename (Some n) =
           (if stripUnderscores (replaceSpaces (replaceInvalid True (basename n))) = [] then None
            else Some (take 50 (stripUnderscores
                   (replaceSpaces (replaceInvalid True (basename n))))))"
proof -
  let ?a = "replaceSpaces (replaceInvalid True (basename n))"
  have "\<forall>c \<in> set (stripUnderscores ?a). \<not> js_space c"
    using replaceSpaces_chars stripUnderscores_set by blast
  then have "js_trim (stripUnderscores ?a) = stripUnderscores ?a" by (rule js_trim_id)
  then show ?thesis using assms by (simp add: sanitizeSubfolderName_def Let_def)
qed

lemma sanitizeSubfolderName_relates:
  assumes "sanitizeSubfolderName basename (Some n) = Some r"
  shows "hd r \<noteq> CHR ''_''"
    and "length r < 50 \<Longrightarrow> last r \<noteq> CHR ''_''"
    and "prefix (filter ordinary_char r) (filter ordinary_char (basename n))"
    and "length r < 50 \<Longrightarrow> filter ordinary_char r = filter ordinary_char (basename n)"
    and "subseq (filter not_underscore r) (basename n)"
    and "length r \<le> length (basename n)"
proof -
  let ?a = "replaceSpaces (replaceInvalid True (basename n))"
  let ?c = "stripUnderscores ?a"
  have n: "n \<noteq> []" using assms by (auto simp: sanitizeSubfolderName_def split: if_splits)
  have c: "?c \<noteq> []" and r: "r = take 50 ?c"
    using assms sanitizeSubfolderName_unfold [OF n, of basename] by (auto split: if_splits)
  have ord: "filter ordinary_char ?c = filter ordinary_char (basename n)"
    by (simp add: stripUnderscores_filter replaceSpaces_ordinary replaceInvalid_ordinary)
  have nu: "filter not_underscore ?c = filter not_underscore ?a"
    by (simp add: stripUnderscores_filter)
  show "hd r \<noteq> CHR ''_''"
    using stripUnderscores_ends(1) [OF c] c by (simp add: r)
  show "last r \<noteq> CHR ''_''" if "length r < 50"
    using stripUnderscores_ends(2) [OF c] that by (simp add: r min_def split: if_splits)
  have "filter ordinary_char ?c = filter ordinary_char r @ filter ordinary_char (drop 50 ?c)"
    unfolding r by (metis append_take_drop_id filter_append)
  then show "prefix (filter ordinary_char r) (filter ordinary_char (basename n))"
    using ord by (metis prefixI)
  show "filter ordinary_char r = filter ordinary_char (basename n)" if "length r < 50"
    using that ord by (simp add: r min_def split: if_splits)
  have "subseq (filter not_underscore r) (filter not_underscore ?c)"
    unfolding r by (metis append_take_drop_id prefixI prefix_imp_subseq subseq_filter)
  also have "subseq (filter not_underscore ?c) (filter not_underscore (replaceInvalid True (basename n)))"
    unfolding nu by (rule replaceSpaces_subseq)
  also have "subseq (filter not_underscore (replaceInvalid True (basename n))) (basename n)"
    by (rule replaceInvalid_subseq)
  finally show "subseq (filter not_underscore r) (basename n)" .
  have "length r \<le> length ?c" by (simp add: r)
  also have "\<dots> \<le> length ?a" by (rule stripUnderscores_length)
  also have "\<dots> \<le> length (replaceInvalid True (basename n))" by (rule replaceSpaces_length)
  also have "\<dots> \<le> length (basename n)" by (rule replaceInvalid_length)
  finally show "length r \<le> length (basename n)" .
qed

lemma sanitizeSubfolderName_None:
  assumes "sanitizeSubfolderName basename (Some n) = None" and "n \<noteq> []"
  shows "filter ordinary_char (basename n) = []"
proof -
  let ?a = "replaceSpaces (replaceInvalid True (basename n))"
  have "stripUnderscores ?a = []"
    using assms sanitizeSubfolderName_unfold [OF assms(2), of basename] by (auto split: if_splits)
  then have "filter ordinary_char (stripUnderscores ?a) = []" by simp
  then show ?thesis
    by (simp add: stripUnderscores_filter replaceSpaces_ordinary replaceInvalid_ordinary)
qed

lemma replaceInvalid_clean:
  "\<forall>c \<in> set xs. ordinary_char c \<Longrightarrow> replaceInvalid b xs = xs"
  by (induction b xs rule: replaceInvalid.induct) (auto simp: ordinary_char_def)

lemma replaceSpaces_clean:
  "\<forall>c \<in> set xs. \<not> js_space c \<Longrightarrow> replaceSpaces xs = xs"
  by (induction xs rule: replaceSpaces.induct) auto

lemma stripUnderscores_clean:
  "\<forall>c \<in> set xs. c \<noteq> CHR ''_'' \<Longrightarrow> stripUnderscores xs = xs"
  by (simp add: stripUnderscores_def dropWhile_none)

lemma sanitizeSubfolderName_clean:
  assumes "n \<noteq> []" and "basename n \<noteq> []" and "length (basename n) \<le> 50"
    and "\<forall>c \<in> set (basename n). ordinary_char c"
  shows "sanitizeSubfolderName basename (Some n) = Some (basename n)"
proof -
  have "replaceInvalid True (basename n) = basename n"
    using assms(4) by (rule replaceInvalid_clean)
  moreover have "replaceSpaces (basename n) = basename n"
    using assms(4) by (intro replaceSpaces_clean) (auto simp: ordinary_char_def)
  moreover have "stripUnderscores (basename n) = basename n"
    using assms(4) by (intro stripUnderscores_clean) (auto simp: ordinary_char_def)
  ultimately show ?thesis
    using assms(1,2,3) by (simp add: sanitizeSubfolderName_unfold)
qed




lemma replaceInvalid_plain:
  "\<forall>c \<in> set xs. c \<noteq> CHR ''.'' \<Longrightarrow>
     replaceInvalid b xs = map (\<lambda>c. if invalid_path_char c then CHR ''_'' else c) xs"
proof (induction b xs rule: replaceInvalid.induct)
  case (1 start)
  show ?case by simp
next
  case (2 start c)
  then show ?case by simp
next
  case (3 start c d ds)
  have c: "c \<noteq> CHR ''.''" and rest: "\<forall>x \<in> set (d # ds). x \<noteq> CHR ''.''"
    using "3.prems" by simp_all
  show ?case
  proof (cases "invalid_path_char c")
    case True
    then show ?thesis using "3.IH"(1) rest by simp
  next
    case False
    then show ?thesis using "3.IH"(4) c rest by simp
  qed
qed

lemma sanitizeSubfolderName_plain:
  assumes "n \<noteq> []" and "\<forall>c \<in> set (basename n). c \<noteq> CHR ''.'' \<and> \<not> js_space c"
  shows "sanitizeSubfolderName basename (Some n) =
           (let replaced = map (\<lambda>c. if invalid_path_char c then CHR ''_'' else c) (basename n);
                trimmed = stripUnderscores replaced
            in if trimmed = [] then None else Some (take 50 trimmed))"
proof -
  let ?m = "map (\<lambda>c. if invalid_path_char c then CHR ''_'' else c) (basename n)"
  have "replaceInvalid True (basename n) = ?m"
    using assms(2) by (intro replaceInvalid_plain) simp
  moreover have "replaceSpaces ?m = ?m"
  proof (rule replaceSpaces_clean, rule ballI)
    fix c assume "c \<in> set ?m"
    then obtain x where x: "x \<in> set (basename n)"
      and c: "c = (if invalid_path_char x then CHR ''_'' else x)"
      unfolding set_map by blast
    have "\<not> js_space x" using assms(2) x by blast
    then show "\<not> js_space c" unfolding c by (cases "invalid_path_char x") simp_all
  qed
  ultimately show ?thesis
    using assms(1) by (simp add: sanitizeSubfolderName_unfold Let_def)
qed

lemma resolveSubfolder_requested:
  assumes "requested \<noteq> []"
  shows "resolveSubfolder e root (Some requested) =
           (case sanitizeSubfolderName (pathBasename e) (Some requested) of
              Some san \<Rightarrow>
                if statIsDirectory e (pathJoin e root san) = Some True
                then (pathJoin e root san, Some san, False) else (root, None, True)
            | None \<Rightarrow> (root, None, True))"
  using assms
  by (simp add: resolveSubfolder_def truthy_def Let_def split: option.split bool.split)

lemma newDownload_requested:
  assumes "subfolder j = Some requested" "requested \<noteq> []"
  shows "dl_path (newDownload e root j c) =
           (case sanitizeSubfolderName (pathBasename e) (Some requested) of
              Some san \<Rightarrow>
                if statIsDirectory e (pathJoin e root san) = Some True
                then pathJoin e root san else root
            | None \<Rightarrow> root)"
    and "dl_note (newDownload e root j c) =
           (case sanitizeSubfolderName (pathBasename e) (Some requested) of
              Some san \<Rightarrow>
                if statIsDirectory e (pathJoin e root san) = Some True
                then SavingTo san else SubfolderWarning requested
            | None \<Rightarrow> SubfolderWarning requested)"
  using assms
  by (simp_all add: newDownload_def resolveSubfolder_requested subfolderNote_def truthy_def
        split: option.split)

text \<open>
  Claim C8. When the queue processor is idle, the download folder is configured and
  the job at the head of the queue asks for a subfolder, the name is sanitised and the
  job becomes the active download in every case.

  \<^item> What the sanitised name is made of. Only the last component of the requested path,
    as \<^verbatim>\<open>path.basename\<close> gives it, is looked at. Its ordinary characters (neither
    forbidden, nor whitespace, nor a dot, nor an underscore) are all kept, in their
    order, up to the cap of 50 characters; every character of the result other than
    an underscore comes from that component, in order; the result is no longer than
    the component, and underscores are trimmed from both ends before the cap is
    applied. If the component has neither dots nor whitespace, the result is the
    component with each forbidden character replaced by an underscore, trimmed and
    capped; a component of at most 50 ordinary characters is returned as it is. The
    name is rejected only if the component has no ordinary character at all.
  \<^item> What the sanitised name is safe for. It is never empty, has at most 50
    characters, contains none of the characters the pattern forbids (so no slash and
    no backslash), no whitespace and no two consecutive dots.
  \<^item> What is done with it. The download goes into the subfolder only if \<^verbatim>\<open>stat\<close> says
    that the joined path is a directory; if the name is rejected, or \<^verbatim>\<open>stat\<close> fails, or
    the path is not a directory, it goes into the root folder and the first status
    message, sent to the channel the job was requested in, carries the warning about
    the requested subfolder.
\<close>

theorem subfolder_sanitized_verified_or_root_with_warning:
  assumes "\<not> isYoutubeDownloadActive s" and "youtubeQueue s = j # rest"
    and "videoDownloadFolder cfg = Some root" and "root \<noteq> []"
    and "subfolder j = Some requested" and "requested \<noteq> []"
    and "sourceChannel j = Some ch"
  shows "\<exists>d. downloads (processYoutubeQueue cfg e s) = downloads s @ [d]
           \<and> dl_job d = j
           \<and> isYoutubeDownloadActive (processYoutubeQueue cfg e s)
           \<and> currentDownloadJob (processYoutubeQueue cfg e s) = Some j
           \<and> messages (trace (processYoutubeQueue cfg e s)) =
                messages (trace s) @ [MsgDownloadStarting j (dl_note d)]
           \<and> (case sanitizeSubfolderName (pathBasename e) (Some requested) of
                 Some san \<Rightarrow>
                   san \<noteq> [] \<and> length san \<le> 50
                   \<and> (\<forall>c \<in> set san. \<not> invalid_path_char c \<and> \<not> js_space c)
                   \<and> no_dotdot san
                   \<and> prefix (filter ordinary_char san)
                        (filter ordinary_char (pathBasename e requested))
                   \<and> (length san < 50 \<longrightarrow>
                        filter ordinary_char san =
                          filter ordinary_char (pathBasename e requested))
                   \<and> subseq (filter not_underscore san) (pathBasename e requested)
                   \<and> length san \<le> length (pathBasename e requested)
                   \<and> hd san \<noteq> CHR ''_'' \<and> (length san < 50 \<longrightarrow> last san \<noteq> CHR ''_'')
                   \<and> (if statIsDirectory e (pathJoin e root san) = Some True
                       then dl_path d = pathJoin e root san \<and> dl_note d = SavingTo san
                       else dl_path d = root \<and> dl_note d = SubfolderWarning requested)
               | None \<Rightarrow>
                   filter ordinary_char (pathBasename e requested) = []
                   \<and> dl_path d = root \<and> dl_note d = SubfolderWarning requested)
           \<and> ((\<forall>c \<in> set (pathBasename e requested). c \<noteq> CHR ''.'' \<and> \<not> js_space c) \<longrightarrow>
                sanitizeSubfolderName (pathBasename e) (Some requested) =
                  (let replaced = map (\<lambda>c. if invalid_path_char c then CHR ''_'' else c)
                                    (pathBasename e requested);
                       trimmed = stripUnderscores replaced
                   in if trimmed = [] then None else Some (take 50 trimmed)))
           \<and> ((\<forall>c \<in> set (pathBasename e requested). ordinary_char c)
                \<and> pathBasename e requested \<noteq> [] \<and> length (pathBasename e requested) \<le> 50 \<longrightarrow>
                sanitizeSubfolderName (pathBasename e) (Some requested) =
                  Some (pathBasename e requested))"
proof -
  let ?d = "newDownload e root j (length (startedJobs s))"
  let ?b = "pathBasename e requested"
  have start: "processYoutubeQueue cfg e s =
           notify j (MsgDownloadStarting j (dl_note ?d))
             (s\<lparr>isYoutubeDownloadActive := True, currentDownloadJob := Some j,
                currentAbortController := Some (length (startedJobs s)), youtubeQueue := rest,
                startedJobs := startedJobs s @ [j],
                downloads := downloads s @ [?d]\<rparr>)"
    by (rule processYoutubeQueue_starts) (use assms in simp_all)
  have san: "r \<noteq> [] \<and> length r \<le> 50
       \<and> (\<forall>c \<in> set r. \<not> invalid_path_char c \<and> \<not> js_space c) \<and> no_dotdot r"
    if "sanitizeSubfolderName (pathBasename e) (Some requested) = Some r" for r
    using that by (rule sanitizeSubfolderName_Some)
  have rel: "prefix (filter ordinary_char r) (filter ordinary_char ?b)
       \<and> (length r < 50 \<longrightarrow> filter ordinary_char r = filter ordinary_char ?b)
       \<and> subseq (filter not_underscore r) ?b
       \<and> length r \<le> length ?b
       \<and> hd r \<noteq> CHR ''_'' \<and> (length r < 50 \<longrightarrow> last r \<noteq> CHR ''_'')"
    if "sanitizeSubfolderName (pathBasename e) (Some requested) = Some r" for r
    using sanitizeSubfolderName_relates [OF that] by blast
  have none: "filter ordinary_char ?b = []"
    if "sanitizeSubfolderName (pathBasename e) (Some requested) = None"
    using that assms(6) by (rule sanitizeSubfolderName_None)
  have "downloads (processYoutubeQueue cfg e s) = downloads s @ [?d]
           \<and> dl_job ?d = j
           \<and> isYoutubeDownloadActive (processYoutubeQueue cfg e s)
           \<and> currentDownloadJob (processYoutubeQueue cfg e s) = Some j
           \<and> messages (trace (processYoutubeQueue cfg e s)) =
                messages (trace s) @ [MsgDownloadStarting j (dl_note ?d)]"
    using assms(7) by (simp add: start notify_trace)
  moreover have "(case sanitizeSubfolderName (pathBasename e) (Some requested) of
                 Some san \<Rightarrow>
                   san \<noteq> [] \<and> length san \<le> 50
                   \<and> (\<forall>c \<in> set san. \<not> invalid_path_char c \<and> \<not> js_space c)
                   \<and> no_dotdot san
                   \<and> prefix (filter ordinary_char san) (filter ordinary_char ?b)
                   \<and> (length san < 50 \<longrightarrow>
                        filter ordinary_char san = filter ordinary_char ?b)
                   \<and> subseq (filter not_underscore san) ?b
                   \<and> length san \<le> length ?b
                   \<and> hd san \<noteq> CHR ''_'' \<and> (length san < 50 \<longrightarrow> last san \<noteq> CHR ''_'')
                   \<and> (if statIsDirectory e (pathJoin e root san) = Some True
                       then dl_path ?d = pathJoin e root san \<and> dl_note ?d = SavingTo san
                       else dl_path ?d = root \<and> dl_note ?d = SubfolderWarning requested)
               | None \<Rightarrow>
                   filter ordinary_char ?b = []
                   \<and> dl_path ?d = root \<and> dl_note ?d = SubfolderWarning requested)"
  proof (cases "sanitizeSubfolderName (pathBasename e) (Some requested)")
    case None
    then show ?thesis
      using none newDownload_requested [OF assms(5,6), of e root "length (startedJobs s)"]
      by simp
  next
    case (Some r)
    then show ?thesis
      using san [OF Some] rel [OF Some]
        newDownload_requested [OF assms(5,6), of e root "length (startedJobs s)"]
      by simp
  qed
  moreover have "(\<forall>c \<in> set ?b. c \<noteq> CHR ''.'' \<and> \<not> js_space c) \<longrightarrow>
                sanitizeSubfolderName (pathBasename e) (Some requested) =
                  (let replaced = map (\<lambda>c. if invalid_path_char c then CHR ''_'' else c) ?b;
                       trimmed = stripUnderscores replaced
                   in if trimmed = [] then None else Some (take 50 trimmed))"
    using sanitizeSubfolderName_plain [OF assms(6), of "pathBasename e"] by blast
  moreover have "(\<forall>c \<in> set ?b. ordinary_char c) \<and> ?b \<noteq> [] \<and> length ?b \<le> 50 \<longrightarrow>
                sanitizeSubfolderName (pathBasename e) (Some requested) = Some ?b"
    using sanitizeSubfolderName_clean [OF assms(6), of "pathBasename e"] by blast
  ultimately show ?thesis by blast
qed

text \<open>
  The theorem at two requests. The first asks for \<^verbatim>\<open>../../etc\<close>: only \<^verbatim>\<open>etc\<close> is looked at
  and returned as it is, the directory \<^verbatim>\<open>/videos/etc\<close> does not exist, so the download
  goes to \<^verbatim>\<open>/videos\<close> with the warning. The second asks for \<^verbatim>\<open>tv/New: Shows.\<close>: the colon,
  the space and the final dot become underscores, the last one is trimmed, the letters
  are kept.
\<close>

theorem subfolder_sanitized_verified_or_root_with_warning_witness:
  "\<not> isYoutubeDownloadActive (enqueueJobs [jobC, jobB] initialBot)
   \<and> youtubeQueue (enqueueJobs [jobC, jobB] initialBot) = [jobC, jobB]
   \<and> videoDownloadFolder exampleConfig = Some ''/videos''
   \<and> subfolder jobC = Some ''../../etc''
   \<and> sourceChannel jobC = Some 3
   \<and> pathBasename exampleEnv ''../../etc'' = ''etc''
   \<and> filter ordinary_char ''etc'' = ''etc''
   \<and> sanitizeSubfolderName (pathBasename exampleEnv) (Some ''../../etc'') = Some ''etc''
   \<and> statIsDirectory exampleEnv (pathJoin exampleEnv ''/videos'' ''etc'') = None
   \<and> messages (trace (processYoutubeQueue exampleConfig exampleEnv
        (enqueueJobs [jobC, jobB] initialBot))) =
        [MsgDownloadStarting jobC (SubfolderWarning ''../../etc'')]
   \<and> map dl_path (downloads (processYoutubeQueue exampleConfig exampleEnv
        (enqueueJobs [jobC, jobB] initialBot))) = [''/videos'']
   \<and> map dl_note (downloads (processYoutubeQueue exampleConfig exampleEnv
        (enqueueJobs [jobC, jobB] initialBot))) = [SubfolderWarning ''../../etc'']
   \<and> currentDownloadJob (processYoutubeQueue exampleConfig exampleEnv
        (enqueueJobs [jobC, jobB] initialBot)) = Some jobC
   \<and> youtubeQueue (enqueueJobs [jobD] initialBot) = [jobD]
   \<and> subfolder jobD = Some ''tv/New: Shows.''
   \<and> pathBasename exampleEnv ''tv/New: Shows.'' = ''New: Shows.''
   \<and> sanitizeSubfolderName (pathBasename exampleEnv) (Some ''tv/New: Shows.'')
        = Some ''New__Shows''
   \<and> filter ordinary_char ''New__Shows'' = filter ordinary_char ''New: Shows.''
   \<and> map dl_note (downloads (processYoutubeQueue exampleConfig exampleEnv
        (enqueueJobs [jobD] initialBot))) = [SubfolderWarning ''tv/New: Shows.'']"
proof -
  let ?s = "enqueueJobs [jobC, jobB] initialBot"
  let ?t = "enqueueJobs [jobD] initialBot"
  have basenames: "pathBasename exampleEnv ''../../etc'' = ''etc''"
    "pathBasename exampleEnv ''tv/New: Shows.'' = ''New: Shows.''"
    by (simp_all add: exampleEnv_def posix_basename_def)
  have sanitized:
    "sanitizeSubfolderName (pathBasename exampleEnv) (Some ''tv/New: Shows.'') = Some ''New__Shows''"
    by (simp add: exampleEnv_def sanitizeSubfolderName_def posix_basename_def js_trim_def
          stripUnderscores_def invalid_path_char_def js_space_def Let_def)
  have s: "\<not> isYoutubeDownloadActive ?s" "youtubeQueue ?s = [jobC, jobB]"
    "downloads ?s = []" "trace ?s = []"
    by (simp_all add: initialBot_def enqueueJobs_def PLAYLIST_VIDEO_LIMIT_def Let_def)
  have t: "\<not> isYoutubeDownloadActive ?t" "youtubeQueue ?t = [jobD]" "downloads ?t = []"
    by (simp_all add: initialBot_def enqueueJobs_def PLAYLIST_VIDEO_LIMIT_def Let_def)
  have cfg: "videoDownloadFolder exampleConfig = Some ''/videos''" "''/videos'' \<noteq> []"
    by (simp_all add: exampleConfig_def)
  have c: "subfolder jobC = Some ''../../etc''" "''../../etc'' \<noteq> []" "sourceChannel jobC = Some 3"
    by (simp_all add: jobC_def)
  have d: "subfolder jobD = Some ''tv/New: Shows.''" "''tv/New: Shows.'' \<noteq> []"
    "sourceChannel jobD = Some 3"
    by (simp_all add: jobD_def)
  have none: "statIsDirectory exampleEnv (pathJoin exampleEnv ''/videos'' ''etc'') = None"
    "statIsDirectory exampleEnv (pathJoin exampleEnv ''/videos'' ''New__Shows'') = None"
    by (simp_all add: exampleEnv_def)
  obtain x where x: "downloads (processYoutubeQueue exampleConfig exampleEnv ?s) = downloads ?s @ [x]"
    and xc: "currentDownloadJob (processYoutubeQueue exampleConfig exampleEnv ?s) = Some jobC"
    and xm: "messages (trace (processYoutubeQueue exampleConfig exampleEnv ?s)) =
               messages (trace ?s) @ [MsgDownloadStarting jobC (dl_note x)]"
    and xcase: "(case sanitizeSubfolderName (pathBasename exampleEnv) (Some ''../../etc'') of
                 Some san \<Rightarrow>
                   san \<noteq> [] \<and> length san \<le> 50
                   \<and> (\<forall>c \<in> set san. \<not> invalid_path_char c \<and> \<not> js_space c)
                   \<and> no_dotdot san
                   \<and> prefix (filter ordinary_char san)
                        (filter ordinary_char (pathBasename exampleEnv ''../../etc''))
                   \<and> (length san < 50 \<longrightarrow>
                        filter ordinary_char san =
                          filter ordinary_char (pathBasename exampleEnv ''../../etc''))
                   \<and> subseq (filter not_underscore san) (pathBasename exampleEnv ''../../etc'')
                   \<and> length san \<le> length (pathBasename exampleEnv ''../../etc'')
                   \<and> hd san \<noteq> CHR ''_'' \<and> (length san < 50 \<longrightarrow> last san \<noteq> CHR ''_'')
                   \<and> (if statIsDirectory exampleEnv (pathJoin exampleEnv ''/videos'' san) = Some True
                       then dl_path x = pathJoin exampleEnv ''/videos'' san \<and> dl_note x = SavingTo san
                       else dl_path x = ''/videos'' \<and> dl_note x = SubfolderWarning ''../../etc'')
               | None \<Rightarrow>
                   filter ordinary_char (pathBasename exampleEnv ''../../etc'') = []
                   \<and> dl_path x = ''/videos'' \<and> dl_note x = SubfolderWarning ''../../etc'')"
    and xclean: "(\<forall>c \<in> set (pathBasename exampleEnv ''../../etc''). ordinary_char c)
                \<and> pathBasename exampleEnv ''../../etc'' \<noteq> []
                \<and> length (pathBasename exampleEnv ''../../etc'') \<le> 50 \<longrightarrow>
                sanitizeSubfolderName (pathBasename exampleEnv) (Some ''../../etc'') =
                  Some (pathBasename exampleEnv ''../../etc'')"
    using subfolder_sanitized_verified_or_root_with_warning
        [OF s(1) s(2) cfg(1) cfg(2) c(1) c(2) c(3), of exampleEnv]
    by blast
  obtain y where y: "downloads (processYoutubeQueue exampleConfig exampleEnv ?t) = downloads ?t @ [y]"
    and ycase: "(case sanitizeSubfolderName (pathBasename exampleEnv) (Some ''tv/New: Shows.'') of
                 Some san \<Rightarrow>
                   san \<noteq> [] \<and> length san \<le> 50
                   \<and> (\<forall>c \<in> set san. \<not> invalid_path_char c \<and> \<not> js_space c)
                   \<and> no_dotdot san
                   \<and> prefix (filter ordinary_char san)
                        (filter ordinary_char (pathBasename exampleEnv ''tv/New: Shows.''))
                   \<and> (length san < 50 \<longrightarrow>
                        filter ordinary_char san =
                          filter ordinary_char (pathBasename exampleEnv ''tv/New: Shows.''))
                   \<and> subseq (filter not_underscore san) (pathBasename exampleEnv ''tv/New: Shows.'')
                   \<and> length san \<le> length (pathBasename exampleEnv ''tv/New: Shows.'')
                   \<and> hd san \<noteq> CHR ''_'' \<and> (length san < 50 \<longrightarrow> last san \<noteq> CHR ''_'')
                   \<and> (if statIsDirectory exampleEnv (pathJoin exampleEnv ''/videos'' san) = Some True
                       then dl_path y = pathJoin exampleEnv ''/videos'' san \<and> dl_note y = SavingTo san
                       else dl_path y = ''/videos'' \<and> dl_note y = SubfolderWarning ''tv/New: Shows.'')
               | None \<Rightarrow>
                   filter ordinary_char (pathBasename exampleEnv ''tv/New: Shows.'') = []
                   \<and> dl_path y = ''/videos'' \<and> dl_note y = SubfolderWarning ''tv/New: Shows.'')"
    using subfolder_sanitized_verified_or_root_with_warning
        [OF t(1) t(2) cfg(1) cfg(2) d(1) d(2) d(3), of exampleEnv]
    by blast
  have "\<forall>c \<in> set ''etc''. ordinary_char c"
    by (simp add: ordinary_char_def invalid_path_char_def js_space_def)
  then have etc: "sanitizeSubfolderName (pathBasename exampleEnv) (Some ''../../etc'') = Some ''etc''"
    using xclean by (simp add: basenames)
  have xd: "dl_path x = ''/videos''" "dl_note x = SubfolderWarning ''../../etc''"
    using xcase by (simp_all add: etc none)
  have yd: "dl_note y = SubfolderWarning ''tv/New: Shows.''"
    using ycase by (simp add: sanitized none)
  show ?thesis
    by (simp add: s t cfg c d basenames etc sanitized none x y xc xm xd yd
          ordinary_char_def invalid_path_char_def js_space_def)
qed

subsection \<open>Vote sessions\<close>

lemma firstBallots_voters:
  "voter ` set (firstBallots seen is) = voter ` set is - seen"
  by (induction "is" arbitrary: seen) auto

lemma firstBallots_distinct:
  "distinct (map voter (firstBallots seen is))"
  by (induction "is" arbitrary: seen) (auto simp: firstBallots_voters)

lemma firstBallots_fresh:
  "i \<in> set (firstBallots seen is) \<Longrightarrow> voter i \<notin> seen"
  by (induction "is" arbitrary: seen) (auto split: if_splits)

lemma foldl_collect:
  "foldl (collect k) v is =
     v\<lparr>yesVotes := yesVotes v + length (filter (\<lambda>i. customId i = yes_button k) (firstBallots (votedUsers v) is)),
       noVotes := noVotes v + length (filter (\<lambda>i. customId i \<noteq> yes_button k) (firstBallots (votedUsers v) is)),
       votedUsers := votedUsers v \<union> voter ` set is\<rparr>"
proof (induction "is" arbitrary: v)
  case Nil
  show ?case by simp
next
  case (Cons i "is")
  show ?case
  proof (cases "voter i \<in> votedUsers v")
    case True
    then have "collect k v i = v" by (simp add: collect_def)
    then show ?thesis using True by (simp add: Cons.IH insert_absorb)
  next
    case False
    show ?thesis
    proof (cases "customId i = yes_button k")
      case True
      have "collect k v i = v\<lparr>votedUsers := insert (voter i) (votedUsers v), yesVotes := yesVotes v + 1\<rparr>"
        using False True by (simp add: collect_def)
      then show ?thesis using False True by (simp add: Cons.IH)
    next
      case no: False
      have "collect k v i = v\<lparr>votedUsers := insert (voter i) (votedUsers v), noVotes := noVotes v + 1\<rparr>"
        using False no by (simp add: collect_def)
      then show ?thesis using False no by (simp add: Cons.IH)
    qed
  qed
qed

lemma length_firstBallots:
  "finite seen \<Longrightarrow> length (firstBallots seen is) = card (voter ` set is - seen)"
proof -
  have "length (firstBallots seen is) = length (map voter (firstBallots seen is))" by simp
  also have "\<dots> = card (set (map voter (firstBallots seen is)))"
    by (rule distinct_card [symmetric]) (rule firstBallots_distinct)
  also have "\<dots> = card (voter ` set is - seen)"
    by (simp add: firstBallots_voters)
  finally show ?thesis .
qed

subsection \<open>How the three polls are resolved\<close>

lemma customPollEnd_resolution:
  "\<not> pollPassed v \<Longrightarrow> customPollEnd cfg e v s = send MsgPollFailedOrTied s"
  "pollPassed v \<Longrightarrow>
     prefix (messages (trace s) @ [MsgPollPassed]) (messages (trace (customPollEnd cfg e v s)))"
proof -
  show "customPollEnd cfg e v s = send MsgPollFailedOrTied s" if "\<not> pollPassed v"
    using that by (simp add: customPollEnd_def)
  show "prefix (messages (trace s) @ [MsgPollPassed]) (messages (trace (customPollEnd cfg e v s)))"
    if pass: "pollPassed v"
  proof -
    let ?s = "send MsgExecutingSwitch (send MsgPollPassed s)"
    show ?thesis
    proof (cases "scriptSucceeds e (customAhkPathTo cfg)")
      case True
      then obtain a where "runAhkScript e (customAhkPathTo cfg) ?s = (Inr (), emit (Exec (pathResolve e a)) ?s)"
        using runAhkScript_succeeds [of e "customAhkPathTo cfg" ?s] by blast
      then show ?thesis
        using pass
        by (simp add: customPollEnd_def customPollFailure_def Let_def send_def emit_def
              startCustomModeTimer_def startVlcTitleCheckInterval_def prefix_def)
    next
      case False
      then obtain err xs where
        "runAhkScript e (customAhkPathTo cfg) ?s = (Inl err, ?s\<lparr>trace := trace ?s @ xs\<rparr>)"
        using runAhkScript_fails [of e "customAhkPathTo cfg" ?s] by blast
      then show ?thesis
        using pass
        by (simp add: customPollEnd_def customPollFailure_def Let_def send_def emit_def prefix_def)
    qed
  qed
qed

lemma skipPollEnd_resolution:
  "\<not> pollPassed v \<Longrightarrow>
     skipPollEnd cfg e v s = send MsgSkipFailedOrTied (s\<lparr>consecutiveSkipVotes := 0\<rparr>)"
  "pollPassed v \<Longrightarrow>
     prefix (messages (trace s) @ [MsgSkipPassed]) (messages (trace (skipPollEnd cfg e v s)))"
proof -
  show "skipPollEnd cfg e v s = send MsgSkipFailedOrTied (s\<lparr>consecutiveSkipVotes := 0\<rparr>)"
    if "\<not> pollPassed v"
    using that by (simp add: skipPollEnd_def)
  show "prefix (messages (trace s) @ [MsgSkipPassed]) (messages (trace (skipPollEnd cfg e v s)))"
    if pass: "pollPassed v"
  proof -
    let ?s = "send MsgExecutingSkip (send MsgSkipPassed
                (s\<lparr>consecutiveSkipVotes := consecutiveSkipVotes s + 1\<rparr>))"
    show ?thesis
    proof (cases "scriptSucceeds e (skipCustomAhkPath cfg)")
      case True
      then obtain a where "runAhkScript e (skipCustomAhkPath cfg) ?s = (Inr (), emit (Exec (pathResolve e a)) ?s)"
        using runAhkScript_succeeds [of e "skipCustomAhkPath cfg" ?s] by blast
      then show ?thesis
        using pass
        by (simp add: skipPollEnd_def skipPollFailure_def Let_def send_def emit_def prefix_def)
    next
      case False
      then obtain err xs where
        "runAhkScript e (skipCustomAhkPath cfg) ?s = (Inl err, ?s\<lparr>trace := trace ?s @ xs\<rparr>)"
        using runAhkScript_fails [of e "skipCustomAhkPath cfg" ?s] by blast
      then show ?thesis
        using pass
        by (simp add: skipPollEnd_def skipPollFailure_def Let_def send_def emit_def prefix_def)
    qed
  qed
qed

lemma browsePollEnd_resolution:
  "\<not> pollPassed v \<Longrightarrow> browsePollEnd cfg e f v s = send MsgBrowsePollFailed s"
  "pollPassed v \<Longrightarrow>
     prefix (messages (trace s) @ [MsgBrowsePollPassed])
       (messages (trace (browsePollEnd cfg e f v s)))"
proof -
  show "browsePollEnd cfg e f v s = send MsgBrowsePollFailed s" if "\<not> pollPassed v"
    using that by (simp add: browsePollEnd_def)
  show "prefix (messages (trace s) @ [MsgBrowsePollPassed])
          (messages (trace (browsePollEnd cfg e f v s)))"
    if pass: "pollPassed v"
  proof -
    define s1 where "s1 = snd (updateEventNameInternal cfg e
        (pathBasenameExt e f (pathExtname e f)) (send MsgBrowsePollPassed s))"
    have m1: "messages (trace s1) = messages (trace s) @ [MsgBrowsePollPassed]"
      by (simp add: s1_def) (simp add: send_def emit_def)
    show ?thesis
    proof (cases "scriptSucceeds e (openFileAhkPath cfg)")
      case True
      then obtain a where "runAhkScript e (openFileAhkPath cfg) s1 = (Inr (), emit (Exec (pathResolve e a)) s1)"
        using runAhkScript_succeeds [of e "openFileAhkPath cfg" s1] by blast
      then show ?thesis
        using pass m1
        by (simp add: browsePollEnd_def Let_def s1_def [symmetric])
           (simp add: send_def emit_def prefix_def)
    next
      case False
      then obtain err xs where
        "runAhkScript e (openFileAhkPath cfg) s1 = (Inl err, s1\<lparr>trace := trace s1 @ xs\<rparr>)"
        using runAhkScript_fails [of e "openFileAhkPath cfg" s1] by blast
      then show ?thesis
        using pass m1
        by (simp add: browsePollEnd_def Let_def s1_def [symmetric])
           (simp add: send_def emit_def prefix_def)
    qed
  qed
qed

text \<open>
  Claim C1. In every poll the ballots are folded through \<open>collect\<close> in arrival order and
  the poll passes exactly when the yes tally is strictly greater than the no tally, so a
  tie fails and so does the poll without ballots. The tallies count the first ballot of
  each voter and nothing else: their sum is the number of distinct voters, and a ballot
  from a voter who has already voted leaves the session as it was. The \<^verbatim>\<open>end\<close> handler of
  each of the three polls follows the tallies: with more yes than no votes it announces
  that the poll has passed before anything else, otherwise all it does is to announce
  that the poll has failed or tied (the skip poll also forgets its streak).
\<close>

theorem vote_passes_iff_majority_one_ballot_each:
  fixes k :: poll_kind and "is" :: "interaction list"
  defines "v \<equiv> collectAll k is"
  defines "counted \<equiv> firstBallots {} is"
  shows "(pollPassed v \<longleftrightarrow> noVotes v < yesVotes v)
       \<and> (yesVotes v = noVotes v \<longrightarrow> \<not> pollPassed v)
       \<and> \<not> pollPassed newPoll
       \<and> yesVotes v = length (filter (\<lambda>i. customId i = yes_button k) counted)
       \<and> noVotes v = length (filter (\<lambda>i. customId i \<noteq> yes_button k) counted)
       \<and> distinct (map voter counted)
       \<and> yesVotes v + noVotes v = card (voter ` set is)
       \<and> (\<forall>i::interaction. voter i \<in> votedUsers v \<longrightarrow> collect k v i = v)
       \<and> (\<forall>i::interaction. voter i \<in> voter ` set is \<longrightarrow> collectAll k (is @ [i]) = v)
       \<and> (case k of
            CustomPoll \<Rightarrow>
              if noVotes v < yesVotes v
              then prefix (messages (trace s) @ [MsgPollPassed])
                     (messages (trace (customPollEnd cfg e v s)))
              else customPollEnd cfg e v s = send MsgPollFailedOrTied s
          | SkipPoll \<Rightarrow>
              if noVotes v < yesVotes v
              then prefix (messages (trace s) @ [MsgSkipPassed])
                     (messages (trace (skipPollEnd cfg e v s)))
              else skipPollEnd cfg e v s =
                     send MsgSkipFailedOrTied (s\<lparr>consecutiveSkipVotes := 0\<rparr>)
          | BrowseSelectPoll \<Rightarrow>
              if noVotes v < yesVotes v
              then prefix (messages (trace s) @ [MsgBrowsePollPassed])
                     (messages (trace (browsePollEnd cfg e selectedFileName v s)))
              else browsePollEnd cfg e selectedFileName v s = send MsgBrowsePollFailed s)"
proof -
  have v: "v = \<lparr>yesVotes = length (filter (\<lambda>i. customId i = yes_button k) counted),
                noVotes = length (filter (\<lambda>i. customId i \<noteq> yes_button k) counted),
                votedUsers = voter ` set is\<rparr>"
    unfolding v_def counted_def collectAll_def foldl_collect by (simp add: newPoll_def)
  have sum: "yesVotes v + noVotes v = length counted"
    unfolding v by (simp add: sum_length_filter_compl)
  have "length counted = card (voter ` set is)"
    unfolding counted_def using length_firstBallots [of "{}" "is"] by simp
  with sum have total: "yesVotes v + noVotes v = card (voter ` set is)" by simp
  have dup: "\<forall>i::interaction. voter i \<in> votedUsers v \<longrightarrow> collect k v i = v"
    by (simp add: collect_def)
  have later: "\<forall>i::interaction. voter i \<in> voter ` set is \<longrightarrow> collectAll k (is @ [i]) = v"
  proof (intro allI impI)
    fix i :: interaction assume "voter i \<in> voter ` set is"
    then have "voter i \<in> votedUsers v" unfolding v by simp
    then show "collectAll k (is @ [i]) = v"
      unfolding collectAll_def v_def by (simp add: collect_def collectAll_def)
  qed
  have handlers: "(case k of
            CustomPoll \<Rightarrow>
              if noVotes v < yesVotes v
              then prefix (messages (trace s) @ [MsgPollPassed])
                     (messages (trace (customPollEnd cfg e v s)))
              else customPollEnd cfg e v s = send MsgPollFailedOrTied s
          | SkipPoll \<Rightarrow>
              if noVotes v < yesVotes v
              then prefix (messages (trace s) @ [MsgSkipPassed])
                     (messages (trace (skipPollEnd cfg e v s)))
              else skipPollEnd cfg e v s =
                     send MsgSkipFailedOrTied (s\<lparr>consecutiveSkipVotes := 0\<rparr>)
          | BrowseSelectPoll \<Rightarrow>
              if noVotes v < yesVotes v
              then prefix (messages (trace s) @ [MsgBrowsePollPassed])
                     (messages (trace (browsePollEnd cfg e selectedFileName v s)))
              else browsePollEnd cfg e selectedFileName v s = send MsgBrowsePollFailed s)"
    by (cases k)
       (simp_all add: pollPassed_def [symmetric] customPollEnd_resolution
          skipPollEnd_resolution browsePollEnd_resolution)
  have tallies: "(pollPassed v \<longleftrightarrow> noVotes v < yesVotes v)
       \<and> (yesVotes v = noVotes v \<longrightarrow> \<not> pollPassed v)
       \<and> \<not> pollPassed newPoll
       \<and> yesVotes v = length (filter (\<lambda>i. customId i = yes_button k) counted)
       \<and> noVotes v = length (filter (\<lambda>i. customId i \<noteq> yes_button k) counted)
       \<and> distinct (map voter counted)"
    by (simp add: pollPassed_def newPoll_def firstBallots_distinct counted_def)
       (simp add: v counted_def)
  show ?thesis
    using tallies total dup later handlers by blast
qed

text \<open>
  The theorem at the spec's first scenario: a yes and a no are cast, the first voter
  presses a button again; the repeated ballot is ignored, the tally is one to one, the
  poll fails and the handler only says so.
\<close>

theorem vote_passes_iff_majority_one_ballot_each_witness:
  "yesVotes (collectAll SkipPoll
       [\<lparr>voter = 1, customId = ''skip_poll_yes''\<rparr>, \<lparr>voter = 2, customId = ''skip_poll_no''\<rparr>])
     = noVotes (collectAll SkipPoll
       [\<lparr>voter = 1, customId = ''skip_poll_yes''\<rparr>, \<lparr>voter = 2, customId = ''skip_poll_no''\<rparr>])
   \<and> \<not> pollPassed (collectAll SkipPoll
       [\<lparr>voter = 1, customId = ''skip_poll_yes''\<rparr>, \<lparr>voter = 2, customId = ''skip_poll_no''\<rparr>])
   \<and> voter \<lparr>voter = 1, customId = ''skip_poll_yes''\<rparr> \<in> votedUsers (collectAll SkipPoll
       [\<lparr>voter = 1, customId = ''skip_poll_yes''\<rparr>, \<lparr>voter = 2, customId = ''skip_poll_no''\<rparr>])
   \<and> collectAll SkipPoll
       [\<lparr>voter = 1, customId = ''skip_poll_yes''\<rparr>, \<lparr>voter = 2, customId = ''skip_poll_no''\<rparr>,
        \<lparr>voter = 1, customId = ''skip_poll_yes''\<rparr>]
     = collectAll SkipPoll
       [\<lparr>voter = 1, customId = ''skip_poll_yes''\<rparr>, \<lparr>voter = 2, customId = ''skip_poll_no''\<rparr>]
   \<and> skipPollEnd exampleConfig exampleEnv (collectAll SkipPoll
       [\<lparr>voter = 1, customId = ''skip_poll_yes''\<rparr>, \<lparr>voter = 2, customId = ''skip_poll_no''\<rparr>])
       initialBot
     = send MsgSkipFailedOrTied (initialBot\<lparr>consecutiveSkipVotes := 0\<rparr>)"
  using vote_passes_iff_majority_one_ballot_each
    [of SkipPoll "[\<lparr>voter = 1, customId = ''skip_poll_yes''\<rparr>, \<lparr>voter = 2, customId = ''skip_poll_no''\<rparr>]"
        initialBot exampleConfig exampleEnv]
  by (simp add: collectAll_def collect_def newPoll_def)

end
